theory Spec2Isabelle
  imports Main
begin

section \<open>JavaScript strings\<close>

text \<open>
  A JavaScript string is a sequence of UTF-16 code units. The model uses \<^typ>\<open>string\<close>,
  so a character is a code unit in the range 0..255 (the Latin-1 block); the classes
  below are the ECMAScript ones restricted to that range.
\<close>

definition isLineTerminator :: "char \<Rightarrow> bool" where
  \<comment> \<open>LineTerminator: LF and CR (U+2028 and U+2029 lie outside the modelled range).
      The regular expression atom \<open>.\<close> matches every character but these.\<close>
  "isLineTerminator c \<longleftrightarrow> c = CHR 0x0A \<or> c = CHR 0x0D"

definition isWhiteSpace :: "char \<Rightarrow> bool" where
  \<comment> \<open>The class \<open>\s\<close> and the characters \<open>trim()\<close> strips: TAB, LF, VT, FF, CR,
      SP and NBSP.\<close>
  "isWhiteSpace c \<longleftrightarrow>
     c = CHR 0x09 \<or> c = CHR 0x0A \<or> c = CHR 0x0B \<or> c = CHR 0x0C \<or> c = CHR 0x0D \<or>
     c = CHR 0x20 \<or> c = CHR 0xA0"

definition isDigit :: "char \<Rightarrow> bool" where
  \<comment> \<open>The class \<open>\d\<close>.\<close>
  "isDigit c \<longleftrightarrow> 48 \<le> (of_char c :: nat) \<and> (of_char c :: nat) \<le> 57"

definition trim :: "string \<Rightarrow> string" where
  "trim s = rev (dropWhile isWhiteSpace (rev (dropWhile isWhiteSpace s)))"

definition toLowerChar :: "char \<Rightarrow> char" where
  \<comment> \<open>A-Z and the Latin-1 capitals U+00C0..U+00DE (without the sign U+00D7) move up by
      32, which sets bit 5 of the code unit.\<close>
  "toLowerChar c =
     (let n = (of_char c :: nat) in
      if (65 \<le> n \<and> n \<le> 90) \<or> (192 \<le> n \<and> n \<le> 222 \<and> n \<noteq> 215)
      then (case c of Char b0 b1 b2 b3 b4 b5 b6 b7 \<Rightarrow> Char b0 b1 b2 b3 b4 True b6 b7)
      else c)"

definition toLowerCase :: "string \<Rightarrow> string" where
  "toLowerCase s = map toLowerChar s"

definition startsWith :: "string \<Rightarrow> string \<Rightarrow> bool" where
  \<comment> \<open>\<open>s.startsWith(p)\<close>\<close>
  "startsWith s p \<longleftrightarrow> take (length p) s = p"

definition endsWith :: "string \<Rightarrow> string \<Rightarrow> bool" where
  \<comment> \<open>\<open>s.endsWith(p)\<close>\<close>
  "endsWith s p \<longleftrightarrow> length p \<le> length s \<and> drop (length s - length p) s = p"

fun includes_str :: "string \<Rightarrow> string \<Rightarrow> bool" where
  \<comment> \<open>\<open>s.includes(p)\<close>\<close>
  "includes_str [] p = (p = [])"
| "includes_str (c # cs) p = (startsWith (c # cs) p \<or> includes_str cs p)"

fun lastIndexOf :: "string \<Rightarrow> char \<Rightarrow> nat option" where
  \<comment> \<open>\<open>s.lastIndexOf(c)\<close> for a one-character needle; \<open>None\<close> stands for -1.\<close>
  "lastIndexOf [] c = None"
| "lastIndexOf (d # ds) c =
     (case lastIndexOf ds c of
        Some i \<Rightarrow> Some (Suc i)
      | None \<Rightarrow> if d = c then Some 0 else None)"

fun showNat :: "nat \<Rightarrow> string" where
  \<comment> \<open>The decimal rendering of a non-negative integer in a template literal.\<close>
  "showNat n =
     (if n < 10 then [''0123456789'' ! n]
      else showNat (n div 10) @ [''0123456789'' ! (n mod 10)])"

declare showNat.simps [simp del]

fun split :: "string \<Rightarrow> string list" where
  \<comment> \<open>\<open>content.split('\n')\<close>\<close>
  "split [] = [[]]"
| "split (c # cs) =
     (if c = CHR 0x0A then [] # split cs
      else (case split cs of l # ls \<Rightarrow> (c # l) # ls | [] \<Rightarrow> [[c]]))"

fun join :: "string list \<Rightarrow> string" where
  \<comment> \<open>\<open>lines.join('\n')\<close>\<close>
  "join [] = []"
| "join [l] = l"
| "join (l # ls) = l @ CHR 0x0A # join ls"

definition normalizedTitle :: "string \<Rightarrow> string" where
  \<comment> \<open>The matching key \<open>title.trim().toLowerCase()\<close>.\<close>
  "normalizedTitle t = toLowerCase (trim t)"


section \<open>The two regular expressions of the daily note\<close>

text \<open>
  \<open>/^(\s*)-\s*\[([x\s])\]\s*(.+)/\<close> recognises a checkbox line. Its first two
  \<open>\s*\<close> are each followed by a character that is no white space, so only their longest
  match can succeed. The last \<open>\s*\<close> is followed by \<open>(.+)\<close>, which needs one character
  that is no line terminator: the matcher tries the longest run of white space first and
  gives characters back one at a time. \<open>(.+)\<close> is greedy and nothing follows it, so it
  takes everything up to the next line terminator.
\<close>

definition dotPlus :: "string \<Rightarrow> string option" where
  \<comment> \<open>\<open>(.+)\<close> at the start of \<open>s\<close>\<close>
  "dotPlus s =
     (let m = takeWhile (\<lambda>c. \<not> isLineTerminator c) s in if m = [] then None else Some m)"

fun spacesDotPlus :: "nat \<Rightarrow> string \<Rightarrow> string option" where
  \<comment> \<open>\<open>\s*(.+)\<close> with at most \<open>k\<close> characters given to \<open>\s*\<close>, longest first\<close>
  "spacesDotPlus 0 s = dotPlus s"
| "spacesDotPlus (Suc k) s =
     (case dotPlus (drop (Suc k) s) of
        Some t \<Rightarrow> Some t
      | None \<Rightarrow> spacesDotPlus k s)"

definition checkboxMatch :: "string \<Rightarrow> (string \<times> char \<times> string) option" where
  \<comment> \<open>The groups (indent, checked, taskText) of a match, \<open>None\<close> for no match.\<close>
  "checkboxMatch ln =
     (let indent = takeWhile isWhiteSpace ln in
      case dropWhile isWhiteSpace ln of
        [] \<Rightarrow> None
      | d # r1 \<Rightarrow>
          if d \<noteq> CHR ''-'' then None
          else
            (case dropWhile isWhiteSpace r1 of
               b # checked # e # r2 \<Rightarrow>
                 if b = CHR ''['' \<and> (checked = CHR ''x'' \<or> isWhiteSpace checked) \<and> e = CHR '']''
                 then
                   (case spacesDotPlus (length (takeWhile isWhiteSpace r2)) r2 of
                      None \<Rightarrow> None
                    | Some taskText \<Rightarrow> Some (indent, checked, taskText))
                 else None
             | _ \<Rightarrow> None))"

text \<open>
  \<open>/\[completion::\s*(\d{4}-\d{2}-\d{2})\]/\<close> finds the completion metadata. White
  space and digits are disjoint, so \<open>\s*\<close> takes its longest match.
\<close>

definition isDatePattern :: "string \<Rightarrow> bool" where
  \<comment> \<open>\<open>\d{4}-\d{2}-\d{2}\<close> on a string of exactly that length\<close>
  "isDatePattern d \<longleftrightarrow>
     length d = 10 \<and>
     isDigit (d ! 0) \<and> isDigit (d ! 1) \<and> isDigit (d ! 2) \<and> isDigit (d ! 3) \<and>
     d ! 4 = CHR ''-'' \<and> isDigit (d ! 5) \<and> isDigit (d ! 6) \<and>
     d ! 7 = CHR ''-'' \<and> isDigit (d ! 8) \<and> isDigit (d ! 9)"

definition completionAt :: "string \<Rightarrow> (string \<times> string) option" where
  \<comment> \<open>A match that starts at the first character: the date and the text after the match.\<close>
  "completionAt s =
     (if startsWith s ''[completion::''
      then
        (let r = dropWhile isWhiteSpace (drop 13 s) in
         if isDatePattern (take 10 r) \<and> take 1 (drop 10 r) = '']''
         then Some (take 10 r, drop 11 r)
         else None)
      else None)"

fun completionSearch :: "string \<Rightarrow> (string \<times> string \<times> string) option" where
  \<comment> \<open>The leftmost match: the text before it, the date, the text after it.\<close>
  "completionSearch [] = None"
| "completionSearch (c # cs) =
     (case completionAt (c # cs) of
        Some (d, r) \<Rightarrow> Some ([], d, r)
      | None \<Rightarrow>
          (case completionSearch cs of
             Some (p, d, r) \<Rightarrow> Some (c # p, d, r)
           | None \<Rightarrow> None))"

definition completionDateOf :: "string \<Rightarrow> string option" where
  \<comment> \<open>\<open>completionMatch ? completionMatch[1] : undefined\<close>\<close>
  "completionDateOf taskText =
     (case completionSearch taskText of Some (p, d, r) \<Rightarrow> Some d | None \<Rightarrow> None)"

definition removeCompletion :: "string \<Rightarrow> string" where
  \<comment> \<open>\<open>taskText.replace(/\[completion::\s*\d{4}-\d{2}-\d{2}\]/, '')\<close>: the first match only\<close>
  "removeCompletion taskText =
     (case completionSearch taskText of Some (p, d, r) \<Rightarrow> p @ r | None \<Rightarrow> taskText)"


section \<open>Dates\<close>

text \<open>
  A \<open>Date\<close> holds a time value, the milliseconds since 1970-01-01T00:00:00Z, or NaN
  (\<open>None\<close> here). The calendar is the proleptic Gregorian one of ECMAScript.
\<close>

definition timeClip :: "int \<Rightarrow> int option" where
  "timeClip t = (if \<bar>t\<bar> \<le> 8640000000000000 then Some t else None)"

definition civilFromDays :: "int \<Rightarrow> int \<times> int \<times> int" where
  \<comment> \<open>Year, month (1..12) and day of the month (1..31) of a day number.\<close>
  "civilFromDays z0 =
     (let z = z0 + 719468;
          era = z div 146097;
          doe = z - era * 146097;
          yoe = (doe - doe div 1460 + doe div 36524 - doe div 146096) div 365;
          doy = doe - (365 * yoe + yoe div 4 - yoe div 100);
          mp = (5 * doy + 2) div 153;
          d = doy - (153 * mp + 2) div 5 + 1;
          m = (if mp < 10 then mp + 3 else mp - 9);
          y = yoe + era * 400 + (if m \<le> 2 then 1 else 0)
      in (y, m, d))"

definition daysFromCivil :: "int \<Rightarrow> int \<Rightarrow> int \<Rightarrow> int" where
  "daysFromCivil y0 m d =
     (let y = (if m \<le> 2 then y0 - 1 else y0);
          era = y div 400;
          yoe = y - era * 400;
          doy = (153 * (if m > 2 then m - 3 else m + 9) + 2) div 5 + d - 1;
          doe = yoe * 365 + yoe div 4 - yoe div 100 + doy
      in era * 146097 + doe - 719468)"

definition pad :: "nat \<Rightarrow> nat \<Rightarrow> string" where
  \<comment> \<open>A number padded with zeros to at least \<open>k\<close> digits.\<close>
  "pad k n = replicate (k - length (showNat n)) (CHR ''0'') @ showNat n"

definition toISOString :: "int \<Rightarrow> string" where
  \<comment> \<open>\<open>YYYY-MM-DDTHH:mm:ss.sssZ\<close>, with a sign and six digits for a year outside
      0..9999.\<close>
  "toISOString t =
     (let day = t div 86400000;
          ms = t mod 86400000;
          (y, m, d) = civilFromDays day;
          year = (if 0 \<le> y \<and> y \<le> 9999 then pad 4 (nat y)
                  else (if y < 0 then ''-'' else ''+'') @ pad 6 (nat \<bar>y\<bar>))
      in year @ ''-'' @ pad 2 (nat m) @ ''-'' @ pad 2 (nat d) @ ''T'' @
         pad 2 (nat (ms div 3600000)) @ '':'' @ pad 2 (nat (ms div 60000 mod 60)) @ '':'' @
         pad 2 (nat (ms div 1000 mod 60)) @ ''.'' @ pad 3 (nat (ms mod 1000)) @ ''Z'')"

definition isoDate :: "int option \<Rightarrow> string option" where
  \<comment> \<open>\<open>date.toISOString().split('T')[0]\<close>; \<open>None\<close> when \<open>toISOString\<close> throws its
      RangeError on an invalid date.\<close>
  "isoDate dt =
     (case dt of
        None \<Rightarrow> None
      | Some t \<Rightarrow> Some (takeWhile (\<lambda>c. c \<noteq> CHR ''T'') (toISOString t)))"

text \<open>
  \<open>new Date(string)\<close> as V8, the engine of Obsidian and of Node, reads the ECMAScript
  date time string format: a year (\<open>YYYY\<close>, or a sign and six digits), then optionally
  \<open>-MM\<close> and \<open>-DD\<close>, then optionally \<open>THH:mm\<close>, \<open>:ss\<close>, a fraction and an offset
  (\<open>Z\<close>, \<open>+HH:mm\<close> or \<open>+HHmm\<close>). V8 takes a fraction of any number of digits and
  keeps its first three, it takes every day from 01 to 31 in every month and lets the
  calendar carry the excess into the next month, and it reads \<open>T\<close> and \<open>Z\<close> in either
  case. A date alone is UTC; a date and time without an offset is local time. What a
  string outside this format yields (V8 hands it to its reader of legacy formats) is not
  modelled: the environment's \<open>dateFallback\<close> decides it.
\<close>

definition digitsValue :: "string \<Rightarrow> nat" where
  "digitsValue s = foldl (\<lambda>a c. 10 * a + (of_char c - 48)) 0 s"

definition field :: "nat \<Rightarrow> string \<Rightarrow> (nat \<times> string) option" where
  \<comment> \<open>Exactly \<open>k\<close> digits at the start of \<open>s\<close>: their value and the rest.\<close>
  "field k s =
     (if k \<le> length s \<and> list_all isDigit (take k s)
      then Some (digitsValue (take k s), drop k s) else None)"

definition sepField :: "char \<Rightarrow> nat \<Rightarrow> string \<Rightarrow> (nat \<times> string) option" where
  \<comment> \<open>A separator and then \<open>k\<close> digits.\<close>
  "sepField c k s = (case s of [] \<Rightarrow> None | x # r \<Rightarrow> if x = c then field k r else None)"

definition parseYear :: "string \<Rightarrow> (int \<times> string) option" where
  "parseYear s =
     (case s of
        [] \<Rightarrow> None
      | c # r \<Rightarrow>
          if c = CHR ''+'' then map_option (\<lambda>(n, r'). (int n, r')) (field 6 r)
          else if c = CHR ''-'' then
            (case field 6 r of
               None \<Rightarrow> None
             | Some (n, r') \<Rightarrow> if n = 0 then None else Some (- int n, r'))
          else map_option (\<lambda>(n, r'). (int n, r')) (field 4 s))"

definition parseDate :: "string \<Rightarrow> ((int \<times> nat \<times> nat) \<times> string) option" where
  \<comment> \<open>\<open>YYYY\<close>, \<open>YYYY-MM\<close> or \<open>YYYY-MM-DD\<close>; a missing month or day is 1.\<close>
  "parseDate s =
     (case parseYear s of
        None \<Rightarrow> None
      | Some (y, r) \<Rightarrow>
          (case sepField (CHR ''-'') 2 r of
             None \<Rightarrow> (if take 1 r = ''-'' then None else Some ((y, 1, 1), r))
           | Some (m, r1) \<Rightarrow>
               (case sepField (CHR ''-'') 2 r1 of
                  None \<Rightarrow> (if take 1 r1 = ''-'' then None else Some ((y, m, 1), r1))
                | Some (d, r2) \<Rightarrow> Some ((y, m, d), r2))))"

definition fraction :: "string \<Rightarrow> ((nat \<times> nat) \<times> string) option" where
  \<comment> \<open>The digits after the decimal point, one at least: the number V8 reads from them
      (leading zeros skipped, nine digits at most) with the milliseconds it makes of that
      number (its first three digits of the count read), and the rest.\<close>
  "fraction s =
     (let ds = takeWhile isDigit s;
          len = length ds;
          n = digitsValue (take 9 (dropWhile (\<lambda>c. c = CHR ''0'') ds))
      in if len = 0 then None
         else Some ((n, if len = 1 then n * 100
                        else if len = 2 then n * 10
                        else if len = 3 then n
                        else n div 10 ^ (min len 9 - 3)),
                    drop len s))"

definition parseOffset :: "string \<Rightarrow> int option option" where
  \<comment> \<open>The rest of the string after the time: \<open>Some None\<close> for no offset (local time),
      \<open>Some (Some ms)\<close> for an offset, \<open>None\<close> when the rest is not an offset.\<close>
  "parseOffset s =
     (if s = [] then Some None
      else if s = ''Z'' \<or> s = ''z'' then Some (Some 0)
      else if take 1 s = ''+'' \<or> take 1 s = ''-'' then
        (let sign = (if take 1 s = ''-'' then -1 else 1) in
         case field 4 (drop 1 s) of
           Some (hm, r) \<Rightarrow>
             if r = [] \<and> hm div 100 < 24 \<and> hm mod 100 < 60
             then Some (Some (sign * (int (hm div 100) * 3600000 + int (hm mod 100) * 60000)))
             else None
         | None \<Rightarrow>
             (case field 2 (drop 1 s) of
                None \<Rightarrow> None
              | Some (h, r) \<Rightarrow>
                  (case sepField (CHR '':'') 2 r of
                     None \<Rightarrow> None
                   | Some (mi, r') \<Rightarrow>
                       if r' = [] \<and> h < 24 \<and> mi < 60
                       then Some (Some (sign * (int h * 3600000 + int mi * 60000)))
                       else None)))
      else None)"

definition parseTime :: "string \<Rightarrow> (int \<times> int option) option" where
  \<comment> \<open>After the \<open>T\<close>: the milliseconds within the day and the offset.\<close>
  "parseTime s =
     (case field 2 s of
        None \<Rightarrow> None
      | Some (h, r) \<Rightarrow>
          (case sepField (CHR '':'') 2 r of
             None \<Rightarrow> None
           | Some (mi, r1) \<Rightarrow>
               (case (case sepField (CHR '':'') 2 r1 of
                        None \<Rightarrow> Some ((0, 0, 0), r1)
                      | Some (sec, r2) \<Rightarrow>
                          if take 1 r2 = ''.''
                          then map_option (\<lambda>((n, ms), r3). ((sec, n, ms), r3))
                                 (fraction (drop 1 r2))
                          else Some ((sec, 0, 0), r2)) of
                  None \<Rightarrow> None
                | Some ((sec, n, ms), r3) \<Rightarrow>
                    if mi < 60 \<and> sec < 60 \<and>
                       (h < 24 \<or> h = 24 \<and> mi = 0 \<and> sec = 0 \<and> n = 0)
                    then map_option
                           (\<lambda>off. (int h * 3600000 + int mi * 60000 + int sec * 1000 + int ms,
                                   off))
                           (parseOffset r3)
                    else None)))"

record env =
  dailyNotePath :: string        \<comment> \<open>setting of the DailyNoteManager\<close>
  todoSectionHeader :: string    \<comment> \<open>setting of the DailyNoteManager\<close>
  today :: string                \<comment> \<open>\<open>moment().format(dateFormat)\<close> during this sync\<close>
  localTZA :: "int \<Rightarrow> int"      \<comment> \<open>offset of local time from UTC, in ms, at a local time value\<close>
  dateFallback :: "string \<Rightarrow> int option"  \<comment> \<open>the runtime's parse of a string outside the format\<close>

definition parseISO :: "env \<Rightarrow> string \<Rightarrow> int option option" where
  \<comment> \<open>\<open>None\<close>: the string is outside the format; \<open>Some t\<close>: the time value it denotes.\<close>
  "parseISO E s =
     (case parseDate s of
        None \<Rightarrow> None
      | Some ((y, m, d), r) \<Rightarrow>
          if m < 1 \<or> 12 < m \<or> d < 1 \<or> 31 < d then None
          else
            (let day = daysFromCivil y (int m) (int d) in
             if r = [] then Some (timeClip (day * 86400000))
             else if take 1 r = ''T'' \<or> take 1 r = ''t'' then
               (case parseTime (drop 1 r) of
                  None \<Rightarrow> None
                | Some (ms, Some off) \<Rightarrow> Some (timeClip (day * 86400000 + ms - off))
                | Some (ms, None) \<Rightarrow>
                    Some (timeClip (day * 86400000 + ms - localTZA E (day * 86400000 + ms))))
             else None))"

definition newDate :: "env \<Rightarrow> string \<Rightarrow> int option" where
  \<comment> \<open>\<open>new Date(s)\<close>\<close>
  "newDate E s = (case parseISO E s of Some t \<Rightarrow> t | None \<Rightarrow> Option.bind (dateFallback E s) timeClip)"


section \<open>Data model\<close>

datatype task_status = NotStarted | InProgress | Completed

record TodoTask =
  task_id :: "string option"
  task_title :: string
  body :: "string option"
  startDateTime :: "string option"
  dueDateTime :: "string option"
  status :: task_status
  createdDateTime :: "string option"
  completedDateTime :: "string option"

record DailyNoteTask =
  title :: string
  completed :: bool
  line :: nat
  completionDate :: "string option"

record SyncResult =
  success :: bool
  newTasksFromMsft :: nat
  newTasksFromObsidian :: nat
  completedTasks :: nat
  errors :: "string list"

text \<open>
  A thrown value, with the three properties the error handler reads. A status of 0 and
  an empty message stand for absent ones (both are falsy in the handler's tests).
\<close>

record js_error =
  response_status :: nat
  response_statusText :: "string option"
  message :: string

definition Error :: "string \<Rightarrow> js_error" where
  \<comment> \<open>\<open>new Error(m)\<close>\<close>
  "Error m = \<lparr>response_status = 0, response_statusText = None, message = m\<rparr>"

definition handleApiError :: "js_error \<Rightarrow> string" where
  "handleApiError e =
     (if response_status e \<noteq> 0 then
        (if response_status e = 401 then ''Authentication failed. Please re-authenticate.''
         else if response_status e = 403 then ''Access denied. Check your permissions.''
         else if response_status e = 404 then ''Resource not found.''
         else if response_status e = 429 then ''Rate limit exceeded. Please try again later.''
         else if response_status e = 500 then ''Server error. Please try again later.''
         else ''API error ('' @ showNat (response_status e) @ ''): '' @
              (case response_statusText e of None \<Rightarrow> ''undefined'' | Some t \<Rightarrow> t))
      else if message e \<noteq> [] then message e
      else ''Unknown API error occurred'')"

definition handleFileError :: "js_error \<Rightarrow> string" where
  "handleFileError e =
     (if message e \<noteq> [] then
        (if includes_str (message e) ''ENOENT'' then ''File not found''
         else if includes_str (message e) ''EACCES'' then ''Permission denied''
         else ''File error: '' @ message e)
      else ''File operation failed'')"

definition rethrow ::
  "(js_error \<Rightarrow> js_error) \<Rightarrow> (js_error + 'a) \<times> 's \<Rightarrow> (js_error + 'a) \<times> 's" where
  \<comment> \<open>\<open>try { ... } catch (error) { throw f(error) }\<close> around a computation\<close>
  "rethrow f r = (case r of (Inl e, w) \<Rightarrow> (Inl (f e), w) | (Inr v, w) \<Rightarrow> (Inr v, w))"


section \<open>The world: the vault, the remote task list, faults and the call log\<close>

text \<open>
  The Obsidian vault and the Microsoft Graph service are outside the repository. The
  vault maps a path to a file (its text and modification time) or a folder; the service
  holds the task list. Every asynchronous call to either takes the next entry of the
  fault schedule: \<open>Some e\<close> makes the call throw \<open>e\<close> without effect, \<open>None\<close> (or an
  exhausted schedule) lets it run. The call log records, in order, each phase entered and
  each method of a collaborator invoked; nothing in the program reads it.
\<close>

datatype vault_entry = TFile string int | TFolder

datatype phase = MsftToObsidian | ObsidianToMsft | Completions

datatype call =
    Enter phase
  | GetTasks
  | CreateTask string "string option"
  | CompleteTask "string option"
  | CreateTodayNote
  | FindOrCreateTodoSection string
  | AddTaskToTodoSection string string
  | ParseDailyNoteTodos string
  | UpdateTaskCompletion string nat string
  | GetFileModificationDate string

record world =
  vault :: "string \<Rightarrow> vault_entry option"
  now :: int                          \<comment> \<open>the clock, for modification times\<close>
  graphClient :: bool                 \<comment> \<open>\<open>this.graphClient\<close> is set\<close>
  listId :: "string option"           \<comment> \<open>\<open>this.listId\<close>\<close>
  tasks :: "TodoTask list"            \<comment> \<open>the remote list\<close>
  nextId :: nat                       \<comment> \<open>the id the service gives the next task\<close>
  serverTime :: string                \<comment> \<open>the service's time stamp\<close>
  faults :: "js_error option list"
  calls :: "call list"

definition called :: "call \<Rightarrow> world \<Rightarrow> world" where
  "called c w = w\<lparr>calls := calls w @ [c]\<rparr>"

definition fault :: "world \<Rightarrow> js_error option \<times> world" where
  "fault w = (case faults w of [] \<Rightarrow> (None, w) | f # fs \<Rightarrow> (f, w\<lparr>faults := fs\<rparr>))"

definition vault_read :: "string \<Rightarrow> world \<Rightarrow> (js_error + string) \<times> world" where
  \<comment> \<open>\<open>await this.app.vault.read(file)\<close>\<close>
  "vault_read p w0 =
     (case fault w0 of
        (Some e, w) \<Rightarrow> (Inl e, w)
      | (None, w) \<Rightarrow>
          (case vault w p of
             Some (TFile content t) \<Rightarrow> (Inr content, w)
           | Some TFolder \<Rightarrow> (Inl (Error ''EISDIR: illegal operation on a directory, read''), w)
           | None \<Rightarrow> (Inl (Error ''ENOENT: no such file or directory''), w)))"

definition vault_modify :: "string \<Rightarrow> string \<Rightarrow> world \<Rightarrow> (js_error + unit) \<times> world" where
  \<comment> \<open>\<open>await this.app.vault.modify(file, content)\<close>\<close>
  "vault_modify p content w0 =
     (case fault w0 of
        (Some e, w) \<Rightarrow> (Inl e, w)
      | (None, w) \<Rightarrow>
          (case vault w p of
             Some (TFile old t) \<Rightarrow> (Inr (), w\<lparr>vault := (vault w)(p \<mapsto> TFile content (now w))\<rparr>)
           | Some TFolder \<Rightarrow> (Inl (Error ''EISDIR: illegal operation on a directory, write''), w)
           | None \<Rightarrow> (Inl (Error ''ENOENT: no such file or directory''), w)))"

definition vault_create :: "string \<Rightarrow> string \<Rightarrow> world \<Rightarrow> (js_error + unit) \<times> world" where
  \<comment> \<open>\<open>await this.app.vault.create(path, content)\<close>\<close>
  "vault_create p content w0 =
     (case fault w0 of
        (Some e, w) \<Rightarrow> (Inl e, w)
      | (None, w) \<Rightarrow>
          (case vault w p of
             Some f \<Rightarrow> (Inl (Error ''File already exists.''), w)
           | None \<Rightarrow> (Inr (), w\<lparr>vault := (vault w)(p \<mapsto> TFile content (now w))\<rparr>)))"

definition vault_createFolder :: "string \<Rightarrow> world \<Rightarrow> (js_error + unit) \<times> world" where
  \<comment> \<open>\<open>await this.app.vault.createFolder(path)\<close>\<close>
  "vault_createFolder p w0 =
     (case fault w0 of
        (Some e, w) \<Rightarrow> (Inl e, w)
      | (None, w) \<Rightarrow>
          (case vault w p of
             Some f \<Rightarrow> (Inl (Error ''Folder already exists.''), w)
           | None \<Rightarrow> (Inr (), w\<lparr>vault := (vault w)(p \<mapsto> TFolder)\<rparr>)))"

definition graph_get :: "world \<Rightarrow> (js_error + TodoTask list) \<times> world" where
  \<comment> \<open>GET \<open>/me/todo/lists/{listId}/tasks\<close>, each task already in the shape \<open>getTasks\<close>
      maps it to (a date-time object is represented by its \<open>dateTime\<close> string)\<close>
  "graph_get w0 =
     (case fault w0 of
        (Some e, w) \<Rightarrow> (Inl e, w)
      | (None, w) \<Rightarrow> (Inr (tasks w), w))"

definition graph_post :: "string \<Rightarrow> string option \<Rightarrow> world \<Rightarrow> (js_error + TodoTask) \<times> world" where
  \<comment> \<open>POST of a new task with status \<open>notStarted\<close>: the service gives it an id and
      appends it to the list\<close>
  "graph_post ttl start w0 =
     (case fault w0 of
        (Some e, w) \<Rightarrow> (Inl e, w)
      | (None, w) \<Rightarrow>
          (let t = \<lparr>task_id = Some (showNat (nextId w)), task_title = ttl, body = None,
                    startDateTime = start, dueDateTime = None, status = NotStarted,
                    createdDateTime = Some (serverTime w), completedDateTime = None\<rparr>
           in (Inr t, w\<lparr>tasks := tasks w @ [t], nextId := nextId w + 1\<rparr>)))"

definition graph_patch :: "string \<Rightarrow> world \<Rightarrow> (js_error + unit) \<times> world" where
  \<comment> \<open>PATCH \<open>{status: 'completed'}\<close> of the task with this id; 404 when there is none\<close>
  "graph_patch i w0 =
     (case fault w0 of
        (Some e, w) \<Rightarrow> (Inl e, w)
      | (None, w) \<Rightarrow>
          (if \<exists>t \<in> set (tasks w). task_id t = Some i
           then (Inr (), w\<lparr>tasks := map (\<lambda>t. if task_id t = Some i
                                              then t\<lparr>status := Completed,
                                                     completedDateTime := Some (serverTime w)\<rparr>
                                              else t) (tasks w)\<rparr>)
           else (Inl \<lparr>response_status = 404, response_statusText = Some ''Not Found'',
                      message = ''Not Found''\<rparr>, w)))"


section \<open>TodoApiClient\<close>

definition initialized :: "world \<Rightarrow> bool" where
  \<comment> \<open>the negation of \<open>!this.graphClient || !this.listId\<close>\<close>
  "initialized w \<longleftrightarrow> graphClient w \<and> listId w \<noteq> None \<and> listId w \<noteq> Some []"

definition getTasks :: "world \<Rightarrow> (js_error + TodoTask list) \<times> world" where
  "getTasks w0 =
     (let w = called GetTasks w0 in
      if \<not> initialized w then (Inl (Error ''Graph client or list ID not initialized''), w)
      else rethrow (\<lambda>e. Error (''Failed to get tasks: '' @ handleApiError e)) (graph_get w))"

definition createTask :: "string \<Rightarrow> string option \<Rightarrow> world \<Rightarrow> (js_error + TodoTask) \<times> world" where
  "createTask ttl startDate w0 =
     (let w = called (CreateTask ttl startDate) w0 in
      if \<not> initialized w then (Inl (Error ''Graph client or list ID not initialized''), w)
      else if ttl = [] \<or> trim ttl = [] then (Inl (Error ''Task title cannot be empty''), w)
      else rethrow (\<lambda>e. Error (''Failed to create task: '' @ handleApiError e))
             (graph_post (trim ttl)
                (case startDate of
                   None \<Rightarrow> None
                 | Some d \<Rightarrow> if d = [] then None else Some (d @ ''T09:00:00.000Z''))
                w))"

definition completeTask :: "string option \<Rightarrow> world \<Rightarrow> (js_error + unit) \<times> world" where
  "completeTask taskId w0 =
     (let w = called (CompleteTask taskId) w0 in
      if \<not> initialized w then (Inl (Error ''Graph client or list ID not initialized''), w)
      else
        (case taskId of
           None \<Rightarrow> (Inl (Error ''Task ID cannot be empty''), w)
         | Some i \<Rightarrow>
             if i = [] then (Inl (Error ''Task ID cannot be empty''), w)
             else rethrow
                    (\<lambda>e. if response_status e = 404 then Error (''Task not found: '' @ i)
                         else Error (''Failed to complete task: '' @ handleApiError e))
                    (graph_patch i w)))"


section \<open>DailyNoteManager\<close>

definition getTodayNote :: "env \<Rightarrow> string" where
  "getTodayNote E =
     (let dir = (if endsWith (dailyNotePath E) ''/'' then dailyNotePath E
                 else dailyNotePath E @ ''/'')
      in dir @ today E @ ''.md'')"

definition checkedFile :: "string \<Rightarrow> world \<Rightarrow> js_error + unit" where
  \<comment> \<open>\<open>if (!file || (!(file instanceof TFile) && !file.path)) throw new Error(...)\<close> on
      \<open>getAbstractFileByPath(filePath)\<close>, whose \<open>path\<close> is \<open>filePath\<close>\<close>
  "checkedFile filePath w =
     (case vault w filePath of
        None \<Rightarrow> Inl (Error (''File not found: '' @ filePath))
      | Some f \<Rightarrow>
          if f = TFolder \<and> filePath = [] then Inl (Error (''File not found: '' @ filePath))
          else Inr ())"

definition createTodayNote :: "env \<Rightarrow> world \<Rightarrow> (js_error + string) \<times> world" where
  \<comment> \<open>The result is the \<open>path\<close> of the file returned.\<close>
  "createTodayNote E w0 =
     (let w = called CreateTodayNote w0;
          todayNotePath = getTodayNote E
      in rethrow (\<lambda>e. Error (''Failed to create today's note: '' @ handleFileError e))
           (if vault w todayNotePath \<noteq> None \<and>
               (vault w todayNotePath \<noteq> Some TFolder \<or> todayNotePath \<noteq> [])
            then (Inr todayNotePath, w)
            else
              (let dirPath = (case lastIndexOf todayNotePath (CHR ''/'') of
                                None \<Rightarrow> [] | Some i \<Rightarrow> take i todayNotePath);
                   content = ''# '' @ today E @ [CHR 0x0A, CHR 0x0A] @ todoSectionHeader E @
                             [CHR 0x0A, CHR 0x0A]
               in case (if dirPath \<noteq> [] \<and> vault w dirPath = None
                        then vault_createFolder dirPath w else (Inr (), w)) of
                    (Inl e, w1) \<Rightarrow> (Inl e, w1)
                  | (Inr u, w1) \<Rightarrow>
                      (case vault_create todayNotePath content w1 of
                         (Inl e, w2) \<Rightarrow> (Inl e, w2)
                       | (Inr u', w2) \<Rightarrow> (Inr todayNotePath, w2)))))"

fun findHeader :: "string \<Rightarrow> string list \<Rightarrow> nat option" where
  \<comment> \<open>the first index \<open>i\<close> with \<open>lines[i].trim() === header\<close>\<close>
  "findHeader h [] = None"
| "findHeader h (l # ls) =
     (if trim l = h then Some 0 else map_option Suc (findHeader h ls))"

definition findOrCreateTodoSection ::
  "env \<Rightarrow> string \<Rightarrow> world \<Rightarrow> (js_error + nat) \<times> world" where
  "findOrCreateTodoSection E filePath w0 =
     (let w = called (FindOrCreateTodoSection filePath) w0
      in rethrow (\<lambda>e. Error (''Failed to find/create todo section: '' @ handleFileError e))
           (case checkedFile filePath w of
              Inl e \<Rightarrow> (Inl e, w)
            | Inr u \<Rightarrow>
                (case vault_read filePath w of
                   (Inl e, w1) \<Rightarrow> (Inl e, w1)
                 | (Inr content, w1) \<Rightarrow>
                     (let lines = split content in
                      case findHeader (todoSectionHeader E) lines of
                        Some i \<Rightarrow> (Inr i, w1)
                      | None \<Rightarrow>
                          (let lines' = lines @ [[], todoSectionHeader E, []] in
                           case vault_modify filePath (join lines') w1 of
                             (Inl e, w2) \<Rightarrow> (Inl e, w2)
                           | (Inr u', w2) \<Rightarrow> (Inr (length lines' - 2), w2))))))"

fun findInsertIndex :: "string \<Rightarrow> string list \<Rightarrow> nat \<Rightarrow> nat \<Rightarrow> nat" where
  \<comment> \<open>The loop over \<open>lines[i]\<close>, \<open>i\<close> from \<open>todoSectionIndex + 1\<close>: the lines left, the
      index \<open>i\<close> and \<open>insertIndex\<close> so far.\<close>
  "findInsertIndex h [] i insertIndex = insertIndex"
| "findInsertIndex h (l # ls) i insertIndex =
     (if startsWith l ''#'' \<and> l \<noteq> h then insertIndex
      else findInsertIndex h ls (i + 1) (if trim l \<noteq> [] then i + 1 else insertIndex))"

definition addTaskAttempt ::
  "env \<Rightarrow> string \<Rightarrow> string \<Rightarrow> world \<Rightarrow> ((js_error + unit) \<times> world) + world" where
  \<comment> \<open>The \<open>try\<close> block of \<open>addTaskToTodoSection\<close>: \<open>Inl\<close> when it ends (normally or by a
      throw), \<open>Inr\<close> when it reaches \<open>return this.addTaskToTodoSection(...)\<close>.\<close>
  "addTaskAttempt E filePath taskTitle w =
     (case checkedFile filePath w of
        Inl e \<Rightarrow> Inl (Inl e, w)
      | Inr u \<Rightarrow>
          (case vault_read filePath w of
             (Inl e, w1) \<Rightarrow> Inl (Inl e, w1)
           | (Inr content, w1) \<Rightarrow>
               (let lines = split content in
                case findHeader (todoSectionHeader E) lines of
                  None \<Rightarrow>
                    (case findOrCreateTodoSection E filePath w1 of
                       (Inl e, w2) \<Rightarrow> Inl (Inl e, w2)
                     | (Inr i, w2) \<Rightarrow> Inr w2)
                | Some todoSectionIndex \<Rightarrow>
                    (let insertIndex =
                           findInsertIndex (todoSectionHeader E)
                             (drop (todoSectionIndex + 1) lines)
                             (todoSectionIndex + 1) (todoSectionIndex + 1);
                         taskLine = ''- [ ] '' @ taskTitle;
                         lines' = take insertIndex lines @ [taskLine] @ drop insertIndex lines
                     in case vault_modify filePath (join lines') w1 of
                          (Inl e, w2) \<Rightarrow> Inl (Inl e, w2)
                        | (Inr u', w2) \<Rightarrow> Inl (Inr (), w2)))))"

text \<open>
  The recursive call is returned, not awaited, inside the \<open>try\<close> of an async function:
  its rejection is not caught by this invocation's \<open>catch\<close>. The recursion does not end
  when the header can never be found again (a header with white space at an end, say), so
  the result is an option.
\<close>

partial_function (option) addTaskToTodoSection ::
  "env \<Rightarrow> string \<Rightarrow> string \<Rightarrow> world \<Rightarrow> ((js_error + unit) \<times> world) option" where
  "addTaskToTodoSection E filePath taskTitle w0 =
     (case addTaskAttempt E filePath taskTitle (called (AddTaskToTodoSection filePath taskTitle) w0) of
        Inl r \<Rightarrow> Some (rethrow (\<lambda>e. Error (''Failed to add task: '' @ handleFileError e)) r)
      | Inr w \<Rightarrow> addTaskToTodoSection E filePath taskTitle w)"

declare addTaskToTodoSection.simps [code]

definition parseLine :: "nat \<Rightarrow> string \<Rightarrow> DailyNoteTask option" where
  \<comment> \<open>the body of the loop of \<open>parseDailyNoteTodos\<close> for line \<open>i\<close>\<close>
  "parseLine i ln =
     (case checkboxMatch ln of
        None \<Rightarrow> None
      | Some (indent, checked, taskText) \<Rightarrow>
          Some \<lparr>title = trim (removeCompletion taskText),
                completed = (toLowerChar checked = CHR ''x''),
                line = i,
                completionDate = completionDateOf taskText\<rparr>)"

fun parseLines :: "nat \<Rightarrow> string list \<Rightarrow> DailyNoteTask list" where
  \<comment> \<open>the loop from index \<open>i\<close> over the lines left\<close>
  "parseLines i [] = []"
| "parseLines i (l # ls) =
     (case parseLine i l of
        None \<Rightarrow> parseLines (i + 1) ls
      | Some t \<Rightarrow> t # parseLines (i + 1) ls)"

definition parseDailyNoteTodos ::
  "string \<Rightarrow> world \<Rightarrow> (js_error + DailyNoteTask list) \<times> world" where
  "parseDailyNoteTodos filePath w0 =
     (let w = called (ParseDailyNoteTodos filePath) w0
      in rethrow (\<lambda>e. Error (''Failed to parse daily note todos: '' @ handleFileError e))
           (case checkedFile filePath w of
              Inl e \<Rightarrow> (Inl e, w)
            | Inr u \<Rightarrow>
                (case vault_read filePath w of
                   (Inl e, w1) \<Rightarrow> (Inl e, w1)
                 | (Inr content, w1) \<Rightarrow> (Inr (parseLines 0 (split content)), w1))))"

definition completedLine :: "string \<Rightarrow> string \<Rightarrow> string \<Rightarrow> string" where
  \<comment> \<open>\<open>`${indent}- [x] ${cleanTaskText} ${completionMetadata}`\<close>\<close>
  "completedLine indent taskText date =
     indent @ ''- [x] '' @ trim (removeCompletion taskText) @ '' '' @
     ''[completion:: '' @ date @ '']''"

definition updateTaskCompletion ::
  "string \<Rightarrow> nat \<Rightarrow> string \<Rightarrow> world \<Rightarrow> (js_error + unit) \<times> world" where
  "updateTaskCompletion filePath lineNumber date w0 =
     (let w = called (UpdateTaskCompletion filePath lineNumber date) w0
      in rethrow (\<lambda>e. Error (''Failed to update task completion: '' @ handleFileError e))
           (case checkedFile filePath w of
              Inl e \<Rightarrow> (Inl e, w)
            | Inr u \<Rightarrow>
                (case vault_read filePath w of
                   (Inl e, w1) \<Rightarrow> (Inl e, w1)
                 | (Inr content, w1) \<Rightarrow>
                     (let lines = split content in
                      if lineNumber \<ge> length lines
                      then (Inl (Error (''Line number '' @ showNat lineNumber @
                                        '' is out of range'')), w1)
                      else
                        (case checkboxMatch (lines ! lineNumber) of
                           None \<Rightarrow>
                             (Inl (Error (''No checkbox found at line '' @ showNat lineNumber)), w1)
                         | Some (indent, checked, taskText) \<Rightarrow>
                             vault_modify filePath
                               (join (lines[lineNumber :=
                                        completedLine indent taskText date]))
                               w1)))))"


section \<open>ObsidianTodoParser\<close>

definition getFileModificationDate ::
  "string \<Rightarrow> world \<Rightarrow> (js_error + int option) \<times> world" where
  \<comment> \<open>The \<open>Date\<close> returned is its time value, \<open>None\<close> for an invalid date.\<close>
  "getFileModificationDate filePath w0 =
     (let w = called (GetFileModificationDate filePath) w0
      in rethrow (\<lambda>e. Error (''Failed to get file modification date: '' @ handleFileError e))
           (case vault w filePath of
              Some (TFile content t) \<Rightarrow> (Inr (timeClip t), w)
            | Some TFolder \<Rightarrow> (Inl (Error (''File not found: '' @ filePath)), w)
            | None \<Rightarrow> (Inl (Error (''File not found: '' @ filePath)), w)))"


section \<open>TodoSynchronizer\<close>

text \<open>
  The result object of a phase, \<open>{ newTasks, errors }\<close> or \<open>{ completedTasks, errors }\<close>,
  is the pair of its counter and its error list. Calls of the logger are left out: they
  neither throw nor change what a phase returns.
\<close>

type_synonym phase_result = "nat \<times> string list"

definition quoted :: "string \<Rightarrow> string" where
  \<comment> \<open>a title between double quotes, as the error messages show it\<close>
  "quoted t = [CHR 0x22] @ t @ [CHR 0x22]"

definition filterNewObsidianTasks :: "DailyNoteTask list \<Rightarrow> TodoTask list \<Rightarrow> DailyNoteTask list" where
  "filterNewObsidianTasks obsidianTasks msftTasks =
     (let msftTaskTitles = set (map (\<lambda>task. toLowerCase (trim (task_title task))) msftTasks)
      in filter (\<lambda>obsTask. toLowerCase (trim (title obsTask)) \<notin> msftTaskTitles) obsidianTasks)"

definition filterNewTasks :: "TodoTask list \<Rightarrow> DailyNoteTask list \<Rightarrow> TodoTask list" where
  "filterNewTasks msftTasks existingObsidianTasks =
     (let obsidianTaskTitles =
            set (map (\<lambda>task. toLowerCase (trim (title task))) existingObsidianTasks)
      in filter (\<lambda>msftTask. toLowerCase (trim (task_title msftTask)) \<notin> obsidianTaskTitles)
           msftTasks)"

definition addFailure :: "TodoTask \<Rightarrow> js_error \<Rightarrow> string" where
  \<comment> \<open>\<open>`Failed to add task "${task.title}": ${errorMessage}`\<close>\<close>
  "addFailure task e =
     ''Failed to add task '' @ quoted (task_title task) @ '': '' @ handleFileError e"

definition createFailure :: "DailyNoteTask \<Rightarrow> js_error \<Rightarrow> string" where
  \<comment> \<open>\<open>`Failed to create task "${task.title}": ${errorMessage}`\<close>\<close>
  "createFailure task e =
     ''Failed to create task '' @ quoted (title task) @ '': '' @ handleApiError e"

fun addNewTasks ::
  "env \<Rightarrow> string \<Rightarrow> TodoTask list \<Rightarrow> phase_result \<Rightarrow> world \<Rightarrow> (phase_result \<times> world) option" where
  \<comment> \<open>\<open>for (const task of newMsftTasks) { try { ... } catch (error) { ... } }\<close>\<close>
  "addNewTasks E todayNotePath [] result w = Some (result, w)"
| "addNewTasks E todayNotePath (task # rest) (newTasks, errs) w =
     (case addTaskToTodoSection E todayNotePath (task_title task) w of
        None \<Rightarrow> None
      | Some (Inr u, w') \<Rightarrow> addNewTasks E todayNotePath rest (newTasks + 1, errs) w'
      | Some (Inl e, w') \<Rightarrow>
          addNewTasks E todayNotePath rest
            (newTasks, errs @ [addFailure task e]) w')"

definition syncMsftToObsidian :: "env \<Rightarrow> world \<Rightarrow> (phase_result \<times> world) option" where
  "syncMsftToObsidian E w0 =
     (let w = called (Enter MsftToObsidian) w0;
          failed = (\<lambda>e. (0, [''Microsoft Todo sync failed: '' @ handleApiError e]))
      in case getTasks w of
           (Inl e, w1) \<Rightarrow> Some (failed e, w1)
         | (Inr msftTasks, w1) \<Rightarrow>
             (case createTodayNote E w1 of
                (Inl e, w2) \<Rightarrow> Some (failed e, w2)
              | (Inr todayNotePath, w2) \<Rightarrow>
                  (case parseDailyNoteTodos todayNotePath w2 of
                     (Inl e, w3) \<Rightarrow> Some (failed e, w3)
                   | (Inr existingTasks, w3) \<Rightarrow>
                       addNewTasks E todayNotePath (filterNewTasks msftTasks existingTasks)
                         (0, []) w3)))"

fun createNewTasks ::
  "string \<Rightarrow> DailyNoteTask list \<Rightarrow> phase_result \<Rightarrow> world \<Rightarrow> phase_result \<times> world" where
  \<comment> \<open>\<open>for (const task of newObsidianTasks) { try { ... } catch (error) { ... } }\<close>\<close>
  "createNewTasks startDate [] result w = (result, w)"
| "createNewTasks startDate (task # rest) (newTasks, errs) w =
     (case createTask (title task) (Some startDate) w of
        (Inr t, w') \<Rightarrow> createNewTasks startDate rest (newTasks + 1, errs) w'
      | (Inl e, w') \<Rightarrow>
          createNewTasks startDate rest
            (newTasks, errs @ [createFailure task e]) w')"

definition syncObsidianToMsft :: "env \<Rightarrow> world \<Rightarrow> phase_result \<times> world" where
  "syncObsidianToMsft E w0 =
     (let w = called (Enter ObsidianToMsft) w0;
          failed = (\<lambda>e. (0, [''Obsidian sync failed: '' @ handleFileError e]));
          todayNotePath = getTodayNote E
      in case parseDailyNoteTodos todayNotePath w of
           (Inl e, w1) \<Rightarrow> (failed e, w1)
         | (Inr dailyNoteTasks, w1) \<Rightarrow>
             (let incompleteTasks = filter (\<lambda>task. \<not> completed task) dailyNoteTasks in
              if length incompleteTasks = 0 then ((0, []), w1)
              else
                (case getTasks w1 of
                   (Inl e, w2) \<Rightarrow> (failed e, w2)
                 | (Inr msftTasks, w2) \<Rightarrow>
                     (let newObsidianTasks = filterNewObsidianTasks incompleteTasks msftTasks in
                      case getFileModificationDate todayNotePath w2 of
                        (Inl e, w3) \<Rightarrow> (failed e, w3)
                      | (Inr fileModDate, w3) \<Rightarrow>
                          (case isoDate fileModDate of
                             None \<Rightarrow> (failed (Error ''Invalid time value''), w3)
                           | Some startDate \<Rightarrow>
                               createNewTasks startDate newObsidianTasks (0, []) w3)))))"

fun completeObsidianTasks ::
  "env \<Rightarrow> string \<Rightarrow> DailyNoteTask list \<Rightarrow> TodoTask list \<Rightarrow> phase_result \<Rightarrow> world \<Rightarrow>
   phase_result \<times> world" where
  \<comment> \<open>the loop \<open>for (const msftTask of msftTasks)\<close> of \<open>syncCompletions\<close>\<close>
  "completeObsidianTasks E todayNotePath dailyNoteTasks [] result w = (result, w)"
| "completeObsidianTasks E todayNotePath dailyNoteTasks (msftTask # rest) (n, errs) w =
     (if status msftTask = Completed \<and> completedDateTime msftTask \<noteq> None \<and>
         completedDateTime msftTask \<noteq> Some []
      then
        (case List.find
                (\<lambda>obsTask. toLowerCase (trim (title obsTask)) =
                            toLowerCase (trim (task_title msftTask)))
                dailyNoteTasks of
           None \<Rightarrow> completeObsidianTasks E todayNotePath dailyNoteTasks rest (n, errs) w
         | Some matchingObsidianTask \<Rightarrow>
             if completed matchingObsidianTask
             then completeObsidianTasks E todayNotePath dailyNoteTasks rest (n, errs) w
             else
               (case (case isoDate (newDate E (the (completedDateTime msftTask))) of
                        None \<Rightarrow> (Inl (Error ''Invalid time value''), w)
                      | Some d \<Rightarrow>
                          updateTaskCompletion todayNotePath (line matchingObsidianTask) d w) of
                  (Inr u, w') \<Rightarrow>
                    completeObsidianTasks E todayNotePath dailyNoteTasks rest (n + 1, errs) w'
                | (Inl e, w') \<Rightarrow>
                    completeObsidianTasks E todayNotePath dailyNoteTasks rest
                      (n,
                       errs @ [''Failed to complete Obsidian task '' @
                               quoted (task_title msftTask) @ '': '' @ handleFileError e])
                      w'))
      else completeObsidianTasks E todayNotePath dailyNoteTasks rest (n, errs) w)"

fun completeMsftTasks ::
  "TodoTask list \<Rightarrow> DailyNoteTask list \<Rightarrow> phase_result \<Rightarrow> world \<Rightarrow> phase_result \<times> world" where
  \<comment> \<open>the loop \<open>for (const obsTask of dailyNoteTasks)\<close> of \<open>syncCompletions\<close>\<close>
  "completeMsftTasks msftTasks [] result w = (result, w)"
| "completeMsftTasks msftTasks (obsTask # rest) (n, errs) w =
     (if completed obsTask \<and> completionDate obsTask \<noteq> None \<and> completionDate obsTask \<noteq> Some []
      then
        (case List.find
                (\<lambda>msftTask. toLowerCase (trim (task_title msftTask)) =
                             toLowerCase (trim (title obsTask)))
                msftTasks of
           None \<Rightarrow> completeMsftTasks msftTasks rest (n, errs) w
         | Some matchingMsftTask \<Rightarrow>
             if status matchingMsftTask = Completed
             then completeMsftTasks msftTasks rest (n, errs) w
             else
               (case completeTask (task_id matchingMsftTask) w of
                  (Inr u, w') \<Rightarrow> completeMsftTasks msftTasks rest (n + 1, errs) w'
                | (Inl e, w') \<Rightarrow>
                    completeMsftTasks msftTasks rest
                      (n,
                       errs @ [''Failed to complete Microsoft Todo task '' @
                               quoted (title obsTask) @ '': '' @ handleApiError e])
                      w'))
      else completeMsftTasks msftTasks rest (n, errs) w)"

definition syncCompletions :: "env \<Rightarrow> world \<Rightarrow> phase_result \<times> world" where
  "syncCompletions E w0 =
     (let w = called (Enter Completions) w0;
          failed = (\<lambda>e. (0, [''Completion sync failed: '' @ handleApiError e]));
          todayNotePath = getTodayNote E
      in case parseDailyNoteTodos todayNotePath w of
           (Inl e, w1) \<Rightarrow> (failed e, w1)
         | (Inr dailyNoteTasks, w1) \<Rightarrow>
             (case getTasks w1 of
                (Inl e, w2) \<Rightarrow> (failed e, w2)
              | (Inr msftTasks, w2) \<Rightarrow>
                  (case completeObsidianTasks E todayNotePath dailyNoteTasks msftTasks (0, []) w2 of
                     (result, w3) \<Rightarrow> completeMsftTasks msftTasks dailyNoteTasks result w3)))"

definition performFullSync :: "env \<Rightarrow> world \<Rightarrow> (SyncResult \<times> world) option" where
  "performFullSync E w =
     (case syncMsftToObsidian E w of
        None \<Rightarrow> None
      | Some (msftToObsidian, w1) \<Rightarrow>
          (case syncObsidianToMsft E w1 of
             (obsidianToMsft, w2) \<Rightarrow>
               (case syncCompletions E w2 of
                  (completions, w3) \<Rightarrow>
                    Some (\<lparr>success = (length (snd msftToObsidian) = 0 \<and>
                                       length (snd obsidianToMsft) = 0 \<and>
                                       length (snd completions) = 0),
                            newTasksFromMsft = fst msftToObsidian,
                            newTasksFromObsidian = fst obsidianToMsft,
                            completedTasks = fst completions,
                            errors = snd msftToObsidian @ snd obsidianToMsft @ snd completions\<rparr>,
                          w3))))"


section \<open>Example values\<close>

definition mkTodo :: "string \<Rightarrow> string \<Rightarrow> TodoTask" where
  \<comment> \<open>a remote task that is not started, as the repository's tests build them\<close>
  "mkTodo i t = \<lparr>task_id = Some i, task_title = t, body = None, startDateTime = None,
                 dueDateTime = None, status = NotStarted, createdDateTime = None,
                 completedDateTime = None\<rparr>"

definition mkNote :: "string \<Rightarrow> bool \<Rightarrow> nat \<Rightarrow> DailyNoteTask" where
  "mkNote t c i = \<lparr>title = t, completed = c, line = i, completionDate = None\<rparr>"

definition exampleEnv :: env where
  \<comment> \<open>The default settings, on 2024-01-01, with local time UTC. The examples pass
      \<open>new Date\<close> strings of the date time format only, so the reader of legacy formats
      is never asked; it is set to read nothing.\<close>
  "exampleEnv = \<lparr>dailyNotePath = ''Daily Notes'', todoSectionHeader = ''## ToDo'',
                  today = ''2024-01-01'', localTZA = (\<lambda>t. 0), dateFallback = (\<lambda>s. None)\<rparr>"

definition exampleWorld ::
  "(string \<Rightarrow> vault_entry option) \<Rightarrow> TodoTask list \<Rightarrow> js_error option list \<Rightarrow> world" where
  \<comment> \<open>an initialized client, a vault, a remote list and a fault schedule\<close>
  "exampleWorld v ts fs = \<lparr>vault = v, now = 86400000, graphClient = True, listId = Some ''list-1'',
                           tasks = ts, nextId = 7, serverTime = ''1970-01-02T00:00:00Z'',
                           faults = fs, calls = []\<rparr>"

definition noteOnly :: "string \<Rightarrow> string \<Rightarrow> vault_entry option" where
  \<comment> \<open>a vault that holds today's note of \<open>exampleEnv\<close> and nothing else\<close>
  "noteOnly content = [''Daily Notes/2024-01-01.md'' \<mapsto> TFile content 0]"


section \<open>Observations on a run\<close>

definition newCalls :: "world \<Rightarrow> world \<Rightarrow> call list" where
  \<comment> \<open>the calls logged between an earlier world and a later one\<close>
  "newCalls w w' = drop (length (calls w)) (calls w')"

definition isEnter :: "call \<Rightarrow> bool" where
  "isEnter c = (case c of Enter p \<Rightarrow> True | _ \<Rightarrow> False)"

definition wfHeader :: "env \<Rightarrow> bool" where
  \<comment> \<open>The section header as the settings tab stores it (\<open>header.trim()\<close> of a one-line
      text field) and as the default \<open>## ToDo\<close> is: trimmed and without a line feed.\<close>
  "wfHeader E \<longleftrightarrow>
     trim (todoSectionHeader E) = todoSectionHeader E \<and> CHR 0x0A \<notin> set (todoSectionHeader E)"

definition isModificationDateRead :: "call \<Rightarrow> bool" where
  "isModificationDateRead c = (case c of GetFileModificationDate p \<Rightarrow> True | _ \<Rightarrow> False)"



section \<open>Frame lemmas: what each operation leaves alone and what it logs\<close>

lemma calls_called [simp]: "calls (called c w) = calls w @ [c]"
  by (simp add: called_def)

lemma called_fields [simp]:
  "vault (called c w) = vault w" "tasks (called c w) = tasks w" "faults (called c w) = faults w"
  "now (called c w) = now w" "graphClient (called c w) = graphClient w" "listId (called c w) = listId w"
  "nextId (called c w) = nextId w" "serverTime (called c w) = serverTime w"
  by (simp_all add: called_def)

lemma initialized_called [simp]: "initialized (called c w) = initialized w"
  by (simp add: initialized_def)

lemma fault_frame [simp]:
  "calls (snd (fault w)) = calls w" "vault (snd (fault w)) = vault w" "tasks (snd (fault w)) = tasks w"
  "now (snd (fault w)) = now w" "graphClient (snd (fault w)) = graphClient w"
  "listId (snd (fault w)) = listId w"
  by (simp_all add: fault_def split: list.splits)

lemma vault_read_frame [simp]:
  "calls (snd (vault_read p w)) = calls w" "vault (snd (vault_read p w)) = vault w"
  "tasks (snd (vault_read p w)) = tasks w" "now (snd (vault_read p w)) = now w"
  "graphClient (snd (vault_read p w)) = graphClient w" "listId (snd (vault_read p w)) = listId w"
  by (simp_all add: vault_read_def fault_def split: list.splits option.splits vault_entry.splits)

lemma vault_modify_frame [simp]:
  "calls (snd (vault_modify p c w)) = calls w"
  "tasks (snd (vault_modify p c w)) = tasks w" "now (snd (vault_modify p c w)) = now w"
  "graphClient (snd (vault_modify p c w)) = graphClient w" "listId (snd (vault_modify p c w)) = listId w"
  by (simp_all add: vault_modify_def fault_def split: list.splits option.splits vault_entry.splits)

lemma vault_create_frame [simp]:
  "calls (snd (vault_create p c w)) = calls w"
  "tasks (snd (vault_create p c w)) = tasks w" "now (snd (vault_create p c w)) = now w"
  "graphClient (snd (vault_create p c w)) = graphClient w" "listId (snd (vault_create p c w)) = listId w"
  by (simp_all add: vault_create_def fault_def split: list.splits option.splits vault_entry.splits)

lemma vault_createFolder_frame [simp]:
  "calls (snd (vault_createFolder p w)) = calls w"
  "tasks (snd (vault_createFolder p w)) = tasks w" "now (snd (vault_createFolder p w)) = now w"
  "graphClient (snd (vault_createFolder p w)) = graphClient w" "listId (snd (vault_createFolder p w)) = listId w"
  by (simp_all add: vault_createFolder_def fault_def split: list.splits option.splits vault_entry.splits)

lemma graph_get_frame [simp]:
  "calls (snd (graph_get w)) = calls w" "vault (snd (graph_get w)) = vault w"
  "tasks (snd (graph_get w)) = tasks w" "now (snd (graph_get w)) = now w"
  "graphClient (snd (graph_get w)) = graphClient w" "listId (snd (graph_get w)) = listId w"
  by (simp_all add: graph_get_def fault_def split: list.splits option.splits)

lemma graph_post_frame [simp]:
  "calls (snd (graph_post t s w)) = calls w" "vault (snd (graph_post t s w)) = vault w"
  "now (snd (graph_post t s w)) = now w"
  "graphClient (snd (graph_post t s w)) = graphClient w" "listId (snd (graph_post t s w)) = listId w"
  by (simp_all add: graph_post_def fault_def Let_def split: list.splits option.splits)

lemma graph_patch_frame [simp]:
  "calls (snd (graph_patch i w)) = calls w" "vault (snd (graph_patch i w)) = vault w"
  "now (snd (graph_patch i w)) = now w"
  "graphClient (snd (graph_patch i w)) = graphClient w" "listId (snd (graph_patch i w)) = listId w"
  by (simp_all add: graph_patch_def fault_def split: list.splits option.splits)

lemma snd_rethrow [simp]: "snd (rethrow f r) = snd r"
  by (simp add: rethrow_def split: prod.splits sum.splits)

lemma rethrow_Inr [simp]: "rethrow f r = (Inr v, w) \<longleftrightarrow> r = (Inr v, w)"
  by (auto simp: rethrow_def split: prod.splits sum.splits)

lemma rethrow_Inl: "rethrow f r = (Inl e, w) \<longleftrightarrow> (\<exists>e'. r = (Inl e', w) \<and> e = f e')"
  by (auto simp: rethrow_def split: prod.splits sum.splits)

lemma getTasks_frame [simp]:
  "calls (snd (getTasks w)) = calls w @ [GetTasks]" "vault (snd (getTasks w)) = vault w"
  "tasks (snd (getTasks w)) = tasks w" "now (snd (getTasks w)) = now w"
  "graphClient (snd (getTasks w)) = graphClient w" "listId (snd (getTasks w)) = listId w"
  by (simp_all add: getTasks_def Let_def)

lemma createTask_frame [simp]:
  "calls (snd (createTask t s w)) = calls w @ [CreateTask t s]" "vault (snd (createTask t s w)) = vault w"
  "now (snd (createTask t s w)) = now w"
  "graphClient (snd (createTask t s w)) = graphClient w" "listId (snd (createTask t s w)) = listId w"
  by (simp_all add: createTask_def Let_def)

lemma completeTask_frame [simp]:
  "calls (snd (completeTask i w)) = calls w @ [CompleteTask i]" "vault (snd (completeTask i w)) = vault w"
  "now (snd (completeTask i w)) = now w"
  "graphClient (snd (completeTask i w)) = graphClient w" "listId (snd (completeTask i w)) = listId w"
  by (simp_all add: completeTask_def Let_def split: option.splits)

lemma parse_frame [simp]:
  "calls (snd (parseDailyNoteTodos p w)) = calls w @ [ParseDailyNoteTodos p]"
  "vault (snd (parseDailyNoteTodos p w)) = vault w"
  "tasks (snd (parseDailyNoteTodos p w)) = tasks w" "now (snd (parseDailyNoteTodos p w)) = now w"
  "graphClient (snd (parseDailyNoteTodos p w)) = graphClient w" "listId (snd (parseDailyNoteTodos p w)) = listId w"
  by (simp_all add: parseDailyNoteTodos_def Let_def case_prod_beta split: sum.splits)

lemma getMod_frame [simp]:
  "calls (snd (getFileModificationDate p w)) = calls w @ [GetFileModificationDate p]"
  "vault (snd (getFileModificationDate p w)) = vault w"
  "tasks (snd (getFileModificationDate p w)) = tasks w" "now (snd (getFileModificationDate p w)) = now w"
  "graphClient (snd (getFileModificationDate p w)) = graphClient w"
  "listId (snd (getFileModificationDate p w)) = listId w"
  "faults (snd (getFileModificationDate p w)) = faults w"
  by (simp_all add: getFileModificationDate_def Let_def split: option.splits vault_entry.splits)

lemma update_frame [simp]:
  "calls (snd (updateTaskCompletion p n d w)) = calls w @ [UpdateTaskCompletion p n d]"
  "tasks (snd (updateTaskCompletion p n d w)) = tasks w" "now (snd (updateTaskCompletion p n d w)) = now w"
  "graphClient (snd (updateTaskCompletion p n d w)) = graphClient w"
  "listId (snd (updateTaskCompletion p n d w)) = listId w"
  by (simp_all add: updateTaskCompletion_def Let_def case_prod_beta split: sum.splits option.splits if_splits)

lemma createTodayNote_frame [simp]:
  "calls (snd (createTodayNote E w)) = calls w @ [CreateTodayNote]"
  "tasks (snd (createTodayNote E w)) = tasks w" "now (snd (createTodayNote E w)) = now w"
  "graphClient (snd (createTodayNote E w)) = graphClient w"
  "listId (snd (createTodayNote E w)) = listId w"
  by (simp_all add: createTodayNote_def Let_def case_prod_beta split: sum.splits option.splits if_splits)

lemma findOrCreate_frame [simp]:
  "calls (snd (findOrCreateTodoSection E p w)) = calls w @ [FindOrCreateTodoSection p]"
  "tasks (snd (findOrCreateTodoSection E p w)) = tasks w" "now (snd (findOrCreateTodoSection E p w)) = now w"
  "graphClient (snd (findOrCreateTodoSection E p w)) = graphClient w"
  "listId (snd (findOrCreateTodoSection E p w)) = listId w"
  by (simp_all add: findOrCreateTodoSection_def Let_def case_prod_beta split: sum.splits option.splits if_splits)

lemma newCalls_app: "calls w' = calls w @ evs \<Longrightarrow> newCalls w w' = evs"
  by (simp add: newCalls_def)

lemma addTaskAttempt_Inl:
  "addTaskAttempt E p t w = Inl (r, w') \<Longrightarrow>
     (\<exists>evs. calls w' = calls w @ evs \<and> set evs \<subseteq> {FindOrCreateTodoSection p}) \<and>
     tasks w' = tasks w \<and> now w' = now w \<and>
     graphClient w' = graphClient w \<and> listId w' = listId w"
  by (auto simp: addTaskAttempt_def Let_def case_prod_beta split: sum.splits option.splits)

lemma addTaskAttempt_Inr:
  "addTaskAttempt E p t w = Inr w' \<Longrightarrow>
     calls w' = calls w @ [FindOrCreateTodoSection p] \<and> tasks w' = tasks w \<and> now w' = now w \<and>
     graphClient w' = graphClient w \<and> listId w' = listId w"
  by (auto simp: addTaskAttempt_def Let_def case_prod_beta split: sum.splits option.splits)

lemma addTask_raw:
  assumes run: "addTaskToTodoSection E p t w = Some y"
    and stop: "\<And>w r. addTaskAttempt E p t (called (AddTaskToTodoSection p t) w) = Inl r \<Longrightarrow>
                 P w (rethrow (\<lambda>e. Error (''Failed to add task: '' @ handleFileError e)) r)"
    and retry: "\<And>w w1 y. addTaskAttempt E p t (called (AddTaskToTodoSection p t) w) = Inr w1 \<Longrightarrow>
                 P w1 y \<Longrightarrow> P w y"
  shows "P w y"
proof -
  have "E = E \<and> p = p \<and> t = t \<longrightarrow> P w y"
  proof (rule addTaskToTodoSection.raw_induct
      [where P = "\<lambda>E' p' t' w y. E' = E \<and> p' = p \<and> t' = t \<longrightarrow> P w y", OF _ run])
    fix f E' p' t' w y
    assume ih: "\<And>E' p' t' w y. f E' p' t' w = Some y \<Longrightarrow> E' = E \<and> p' = p \<and> t' = t \<longrightarrow> P w y"
      and step: "(case addTaskAttempt E' p' t' (called (AddTaskToTodoSection p' t') w) of
                    Inl r \<Rightarrow> Some (rethrow (\<lambda>e. Error (''Failed to add task: '' @ handleFileError e)) r)
                  | Inr w \<Rightarrow> f E' p' t' w) = Some y"
    show "E' = E \<and> p' = p \<and> t' = t \<longrightarrow> P w y"
    proof
      assume eq: "E' = E \<and> p' = p \<and> t' = t"
      show "P w y"
      proof (cases "addTaskAttempt E p t (called (AddTaskToTodoSection p t) w)")
        case (Inl r)
        with step eq have "y = rethrow (\<lambda>e. Error (''Failed to add task: '' @ handleFileError e)) r"
          by simp
        with stop [OF Inl] show ?thesis by simp
      next
        case (Inr w1)
        with step eq have "f E p t w1 = Some y" by simp
        from ih [OF this] have "P w1 y" by simp
        from retry [OF Inr this] show ?thesis .
      qed
    qed
  qed
  then show ?thesis by simp
qed

lemma addTask_frame:
  assumes "addTaskToTodoSection E p t w = Some y"
  shows "(\<exists>evs. calls (snd y) = calls w @ evs \<and>
            set evs \<subseteq> {AddTaskToTodoSection p t, FindOrCreateTodoSection p}) \<and>
     tasks (snd y) = tasks w \<and> now (snd y) = now w \<and>
     graphClient (snd y) = graphClient w \<and> listId (snd y) = listId w"
  using assms
proof (rule addTask_raw)
  fix w r
  assume a: "addTaskAttempt E p t (called (AddTaskToTodoSection p t) w) = Inl r"
  from addTaskAttempt_Inl [of E p t "called (AddTaskToTodoSection p t) w" "fst r" "snd r"] a
  obtain evs where evs: "calls (snd r) = calls w @ [AddTaskToTodoSection p t] @ evs"
      "set evs \<subseteq> {FindOrCreateTodoSection p}"
    and rest: "tasks (snd r) = tasks w" "now (snd r) = now w"
      "graphClient (snd r) = graphClient w" "listId (snd r) = listId w"
    by auto
  have "set ([AddTaskToTodoSection p t] @ evs)
      \<subseteq> {AddTaskToTodoSection p t, FindOrCreateTodoSection p}"
    using evs(2) by auto
  with evs(1) have "\<exists>evs. calls (snd r) = calls w @ evs \<and>
          set evs \<subseteq> {AddTaskToTodoSection p t, FindOrCreateTodoSection p}"
    by blast
  with rest show "(\<exists>evs. calls (snd (rethrow (\<lambda>e. Error (''Failed to add task: '' @ handleFileError e)) r)) = calls w @ evs \<and>
            set evs \<subseteq> {AddTaskToTodoSection p t, FindOrCreateTodoSection p}) \<and>
     tasks (snd (rethrow (\<lambda>e. Error (''Failed to add task: '' @ handleFileError e)) r)) = tasks w \<and> now (snd (rethrow (\<lambda>e. Error (''Failed to add task: '' @ handleFileError e)) r)) = now w \<and>
     graphClient (snd (rethrow (\<lambda>e. Error (''Failed to add task: '' @ handleFileError e)) r)) = graphClient w \<and> listId (snd (rethrow (\<lambda>e. Error (''Failed to add task: '' @ handleFileError e)) r)) = listId w"
    by simp
next
  fix w w1 y
  assume a: "addTaskAttempt E p t (called (AddTaskToTodoSection p t) w) = Inr w1"
    and ih: "(\<exists>evs. calls (snd y) = calls w1 @ evs \<and>
            set evs \<subseteq> {AddTaskToTodoSection p t, FindOrCreateTodoSection p}) \<and>
     tasks (snd y) = tasks w1 \<and> now (snd y) = now w1 \<and>
     graphClient (snd y) = graphClient w1 \<and> listId (snd y) = listId w1"
  note a' = addTaskAttempt_Inr [OF a]
  from ih obtain evs where evs: "calls (snd y) = calls w1 @ evs"
      "set evs \<subseteq> {AddTaskToTodoSection p t, FindOrCreateTodoSection p}"
    by blast
  have "calls (snd y) = calls w @ (AddTaskToTodoSection p t # FindOrCreateTodoSection p # evs)"
    using evs(1) a' by simp
  moreover have "set (AddTaskToTodoSection p t # FindOrCreateTodoSection p # evs)
      \<subseteq> {AddTaskToTodoSection p t, FindOrCreateTodoSection p}"
    using evs(2) by simp
  ultimately have "\<exists>evs. calls (snd y) = calls w @ evs \<and>
          set evs \<subseteq> {AddTaskToTodoSection p t, FindOrCreateTodoSection p}"
    by blast
  moreover have "tasks (snd y) = tasks w" "now (snd y) = now w"
      "graphClient (snd y) = graphClient w" "listId (snd y) = listId w"
    using ih a' by simp_all
  ultimately show "(\<exists>evs. calls (snd y) = calls w @ evs \<and>
            set evs \<subseteq> {AddTaskToTodoSection p t, FindOrCreateTodoSection p}) \<and>
     tasks (snd y) = tasks w \<and> now (snd y) = now w \<and>
     graphClient (snd y) = graphClient w \<and> listId (snd y) = listId w" by blast
qed

section \<open>Lines of a note\<close>

lemma split_not_Nil [simp]: "split s \<noteq> []"
  by (induction s) (auto split: list.splits)

lemma split_Cons_other: "c \<noteq> CHR 0x0A \<Longrightarrow> split (c # cs) = (c # hd (split cs)) # tl (split cs)"
  by (cases "split cs") simp_all

lemma split_append_nl: "split (l @ CHR 0x0A # r) = split l @ split r"
proof (induction l)
  case Nil
  show ?case by simp
next
  case (Cons c l)
  show ?case
  proof (cases "c = CHR 0x0A")
    case True
    with Cons show ?thesis by simp
  next
    case False
    then have "split ((c # l) @ CHR 0x0A # r) = (c # hd (split l @ split r)) # tl (split l @ split r)"
      using Cons split_Cons_other [of c "l @ CHR 0x0A # r"] by simp
    also have "\<dots> = ((c # hd (split l)) # tl (split l)) @ split r"
      by (cases "split l") simp_all
    also have "\<dots> = split (c # l) @ split r"
      using False split_Cons_other [of c l] by simp
    finally show ?thesis .
  qed
qed

lemma split_no_nl: "CHR 0x0A \<notin> set l \<Longrightarrow> split l = [l]"
  by (induction l) auto

lemma split_lines_no_nl: "l \<in> set (split s) \<Longrightarrow> CHR 0x0A \<notin> set l"
proof (induction s arbitrary: l)
  case Nil
  then show ?case by simp
next
  case (Cons c s)
  show ?case
  proof (cases "c = CHR 0x0A")
    case True
    with Cons show ?thesis by auto
  next
    case False
    obtain x xs where sp: "split s = x # xs" by (cases "split s") auto
    with False Cons.prems have "l = c # x \<or> l \<in> set xs" by simp
    then show ?thesis
      using Cons.IH [of x] Cons.IH [of l] sp False by auto
  qed
qed

lemma split_join: "ls \<noteq> [] \<Longrightarrow> split (join ls) = concat (map split ls)"
proof (induction ls rule: join.induct)
  case 1
  then show ?case by simp
next
  case (2 l)
  show ?case by simp
next
  case (3 l v va)
  then show ?case by (simp add: split_append_nl)
qed

lemma split_join_id:
  assumes "ls \<noteq> []" "\<forall>l \<in> set ls. CHR 0x0A \<notin> set l"
  shows "split (join ls) = ls"
proof -
  have "concat (map split ls) = ls"
    using assms(2) by (induction ls) (auto simp: split_no_nl)
  with split_join [OF assms(1)] show ?thesis by simp
qed

lemma findHeader_None_iff: "findHeader h ls = None \<longleftrightarrow> (\<forall>l \<in> set ls. trim l \<noteq> h)"
  by (induction ls) auto

lemma findHeader_Some_less: "findHeader h ls = Some i \<Longrightarrow> i < length ls \<and> trim (ls ! i) = h"
proof (induction ls arbitrary: i)
  case Nil
  then show ?case by simp
next
  case (Cons l ls)
  then show ?case by (auto split: if_splits)
qed

lemma vault_read_Inr:
  "vault_read p w = (Inr c, w') \<Longrightarrow> (\<exists>t. vault w p = Some (TFile c t)) \<and> vault w' = vault w"
  by (auto simp: vault_read_def fault_def split: list.splits option.splits vault_entry.splits)

lemma vault_modify_Inr:
  "vault_modify p c w = (Inr u, w') \<Longrightarrow> vault w' = (vault w)(p \<mapsto> TFile c (now w))"
  by (auto simp: vault_modify_def fault_def split: list.splits option.splits vault_entry.splits)

lemma vault_modify_Inl:
  "vault_modify p c w = (Inl e, w') \<Longrightarrow> vault w' = vault w"
  by (auto simp: vault_modify_def fault_def split: list.splits option.splits vault_entry.splits)

lemma findOrCreate_Inr:
  assumes "findOrCreateTodoSection E p w = (Inr i, w')" "wfHeader E"
  shows "\<exists>c t. vault w' p = Some (TFile c t) \<and> findHeader (todoSectionHeader E) (split c) \<noteq> None"
proof -
  let ?w = "called (FindOrCreateTodoSection p) w"
  let ?h = "todoSectionHeader E"
  from assms(1) obtain c w1 where rd: "vault_read p ?w = (Inr c, w1)"
    by (auto simp: findOrCreateTodoSection_def Let_def split: sum.splits prod.splits)
  from vault_read_Inr [OF rd] obtain t where v: "vault w p = Some (TFile c t)" "vault w1 = vault w"
    by auto
  show ?thesis
  proof (cases "findHeader ?h (split c)")
    case (Some j)
    with assms(1) rd have "w' = w1"
      by (auto simp: findOrCreateTodoSection_def Let_def split: sum.splits prod.splits)
    with v Some show ?thesis by auto
  next
    case None
    with assms(1) rd obtain u where
      md: "vault_modify p (join (split c @ [[], ?h, []])) w1 = (Inr u, w')"
      by (auto simp: findOrCreateTodoSection_def Let_def split: sum.splits prod.splits)
    from vault_modify_Inr [OF md]
    have v': "vault w' p = Some (TFile (join (split c @ [[], ?h, []])) (now w1))" by simp
    have "split (join (split c @ [[], ?h, []])) = concat (map split (split c @ [[], ?h, []]))"
      by (rule split_join) simp
    moreover have "split ?h = [?h]"
      using assms(2) by (simp add: wfHeader_def split_no_nl)
    ultimately have "?h \<in> set (split (join (split c @ [[], ?h, []])))" by simp
    moreover have "trim ?h = ?h" using assms(2) by (simp add: wfHeader_def)
    ultimately have "findHeader ?h (split (join (split c @ [[], ?h, []]))) \<noteq> None"
      unfolding findHeader_None_iff by blast
    with v' show ?thesis by blast
  qed
qed

lemma addTaskAttempt_Inr_findOrCreate:
  "addTaskAttempt E p t w = Inr w' \<Longrightarrow>
     \<exists>w1 i. findOrCreateTodoSection E p w1 = (Inr i, w')"
  by (auto simp: addTaskAttempt_def Let_def split: sum.splits prod.splits option.splits)

lemma addTaskAttempt_Inr_header:
  "addTaskAttempt E p t w = Inr w' \<Longrightarrow>
     \<exists>c t. vault w p = Some (TFile c t) \<and> findHeader (todoSectionHeader E) (split c) = None"
  by (auto simp: addTaskAttempt_def Let_def split: sum.splits prod.splits option.splits
        dest!: vault_read_Inr)

lemma addTask_terminates:
  assumes "wfHeader E"
  shows "\<exists>y. addTaskToTodoSection E p t w = Some y"
proof (cases "addTaskAttempt E p t (called (AddTaskToTodoSection p t) w)")
  case (Inl r)
  then show ?thesis by (subst addTaskToTodoSection.simps) simp
next
  case (Inr w1)
  from addTaskAttempt_Inr_findOrCreate [OF Inr] findOrCreate_Inr [OF _ assms]
  obtain c t' where v: "vault w1 p = Some (TFile c t')"
      "findHeader (todoSectionHeader E) (split c) \<noteq> None"
    by blast
  have "\<exists>r. addTaskAttempt E p t (called (AddTaskToTodoSection p t) w1) = Inl r"
  proof (cases "addTaskAttempt E p t (called (AddTaskToTodoSection p t) w1)")
    case (Inl r)
    then show ?thesis by simp
  next
    case (Inr w2)
    from addTaskAttempt_Inr_header [OF Inr] v show ?thesis by simp
  qed
  then obtain r where r: "addTaskAttempt E p t (called (AddTaskToTodoSection p t) w1) = Inl r" ..
  have "addTaskToTodoSection E p t w = addTaskToTodoSection E p t w1"
    using Inr by (subst addTaskToTodoSection.simps) simp
  also have "\<dots> = Some (rethrow (\<lambda>e. Error (''Failed to add task: '' @ handleFileError e)) r)"
    using r by (subst addTaskToTodoSection.simps) simp
  finally show ?thesis by simp
qed

section \<open>The call log of the loops and the phases\<close>

lemma isEnter_simps [simp]:
  "isEnter (Enter q)" "\<not> isEnter GetTasks" "\<not> isEnter (CreateTask t s)" "\<not> isEnter (CompleteTask i)"
  "\<not> isEnter CreateTodayNote" "\<not> isEnter (FindOrCreateTodoSection p)"
  "\<not> isEnter (AddTaskToTodoSection p t)" "\<not> isEnter (ParseDailyNoteTodos p)"
  "\<not> isEnter (UpdateTaskCompletion p n d)" "\<not> isEnter (GetFileModificationDate p)"
  by (simp_all add: isEnter_def)

lemma addTask_entered:
  assumes "addTaskToTodoSection E p t w = Some (r, w')"
  shows "filter isEnter (calls w') = filter isEnter (calls w)"
proof -
  from addTask_frame [OF assms] obtain evs where
    "calls w' = calls w @ evs" "set evs \<subseteq> {AddTaskToTodoSection p t, FindOrCreateTodoSection p}"
    by auto
  moreover from this(2) have "filter isEnter evs = []"
    by (auto simp: filter_empty_conv)
  ultimately show ?thesis by simp
qed

lemma addNewTasks_entered:
  "addNewTasks E p ts res w = Some (res', w') \<Longrightarrow>
     filter isEnter (calls w') = filter isEnter (calls w) \<and> tasks w' = tasks w"
proof (induction ts arbitrary: res w)
  case Nil
  then show ?case by simp
next
  case (Cons t ts)
  obtain n errs where res: "res = (n, errs)" by (cases res)
  from Cons.prems res obtain r w1 where
    a: "addTaskToTodoSection E p (task_title t) w = Some (r, w1)"
    by (auto split: option.splits)
  from Cons.prems res a obtain res1 where "addNewTasks E p ts res1 w1 = Some (res', w')"
    by (cases r) auto
  from Cons.IH [OF this] addTask_entered [OF a] addTask_frame [OF a]
  show ?case by simp
qed

lemma addNewTasks_terminates:
  assumes "wfHeader E"
  shows "\<exists>y. addNewTasks E p ts res w = Some y"
proof (induction ts arbitrary: res w)
  case Nil
  show ?case by simp
next
  case (Cons t ts)
  obtain n errs where res: "res = (n, errs)" by (cases res)
  from addTask_terminates [OF assms] obtain r w1 where
    a: "addTaskToTodoSection E p (task_title t) w = Some (r, w1)"
    by (metis surj_pair)
  show ?case
    using Cons.IH a res by (cases r) auto
qed

lemma createTask_eq:
  "createTask t s w = (r, w') \<Longrightarrow> calls w' = calls w @ [CreateTask t s] \<and> vault w' = vault w"
  using createTask_frame [of t s w] by simp

lemma completeTask_eq:
  "completeTask i w = (r, w') \<Longrightarrow> calls w' = calls w @ [CompleteTask i] \<and> vault w' = vault w"
  using completeTask_frame [of i w] by simp

lemma update_eq:
  "updateTaskCompletion p n d w = (r, w') \<Longrightarrow>
     calls w' = calls w @ [UpdateTaskCompletion p n d] \<and> tasks w' = tasks w"
  using update_frame [of p n d w] by simp

lemma getTasks_eq:
  "getTasks w = (r, w') \<Longrightarrow>
     calls w' = calls w @ [GetTasks] \<and> tasks w' = tasks w \<and> vault w' = vault w"
  using getTasks_frame [of w] by simp

lemma parse_eq:
  "parseDailyNoteTodos p w = (r, w') \<Longrightarrow>
     calls w' = calls w @ [ParseDailyNoteTodos p] \<and> tasks w' = tasks w \<and> vault w' = vault w"
  using parse_frame [of p w] by simp

lemma getMod_eq:
  "getFileModificationDate p w = (r, w') \<Longrightarrow>
     calls w' = calls w @ [GetFileModificationDate p] \<and> tasks w' = tasks w \<and> vault w' = vault w
     \<and> faults w' = faults w"
  using getMod_frame [of p w] by simp

lemma createTodayNote_eq:
  "createTodayNote E w = (r, w') \<Longrightarrow>
     calls w' = calls w @ [CreateTodayNote] \<and> tasks w' = tasks w"
  using createTodayNote_frame [of E w] by simp

lemma createNewTasks_calls:
  "createNewTasks d ts res w = (res', w') \<Longrightarrow>
     calls w' = calls w @ map (\<lambda>t. CreateTask (title t) (Some d)) ts \<and> vault w' = vault w"
proof (induction ts arbitrary: res w)
  case Nil
  then show ?case by simp
next
  case (Cons t ts)
  obtain n errs where res: "res = (n, errs)" by (cases res)
  obtain r w1 where c: "createTask (title t) (Some d) w = (r, w1)" by (cases "createTask (title t) (Some d) w")
  from Cons.prems res c obtain res1 where "createNewTasks d ts res1 w1 = (res', w')"
    by (cases r) auto
  from Cons.IH [OF this] createTask_eq [OF c] show ?case by simp
qed

lemma completeObsidianTasks_calls:
  "completeObsidianTasks E p ds ms res w = (res', w') \<Longrightarrow>
     (\<exists>evs. calls w' = calls w @ evs \<and> (\<forall>c \<in> set evs. \<exists>n d. c = UpdateTaskCompletion p n d))
     \<and> tasks w' = tasks w"
proof (induction ms arbitrary: res w)
  case Nil
  then show ?case by simp
next
  case (Cons m ms)
  obtain n errs where res: "res = (n, errs)" by (cases res)
  consider (skip) "completeObsidianTasks E p ds ms res w = (res', w')"
    | (upd) l d r w1 res1 where "updateTaskCompletion p l d w = (r, w1)"
        "completeObsidianTasks E p ds ms res1 w1 = (res', w')"
    | (bad) res1 where "completeObsidianTasks E p ds ms res1 w = (res', w')"
    using Cons.prems res
    by (auto split: if_splits option.splits sum.splits prod.splits)
  then show ?case
  proof cases
    case skip
    from Cons.IH [OF this] show ?thesis .
  next
    case upd
    from Cons.IH [OF upd(2)] obtain evs where evs: "calls w' = calls w1 @ evs"
        "\<forall>c \<in> set evs. \<exists>n d. c = UpdateTaskCompletion p n d" and t: "tasks w' = tasks w1"
      by blast
    from update_eq [OF upd(1)] evs(1)
    have "calls w' = calls w @ (UpdateTaskCompletion p l d # evs)" by simp
    moreover have "\<forall>c \<in> set (UpdateTaskCompletion p l d # evs). \<exists>n d. c = UpdateTaskCompletion p n d"
      using evs(2) by simp
    ultimately have "\<exists>evs. calls w' = calls w @ evs \<and> (\<forall>c \<in> set evs. \<exists>n d. c = UpdateTaskCompletion p n d)"
      by blast
    with t update_eq [OF upd(1)] show ?thesis by simp
  next
    case bad
    from Cons.IH [OF this] show ?thesis .
  qed
qed

lemma completeMsftTasks_calls:
  "completeMsftTasks ms ds res w = (res', w') \<Longrightarrow>
     (\<exists>evs. calls w' = calls w @ evs \<and> (\<forall>c \<in> set evs. \<exists>i. c = CompleteTask i))
     \<and> vault w' = vault w"
proof (induction ds arbitrary: res w)
  case Nil
  then show ?case by simp
next
  case (Cons d ds)
  obtain n errs where res: "res = (n, errs)" by (cases res)
  consider (skip) "completeMsftTasks ms ds res w = (res', w')"
    | (upd) i r w1 res1 where "completeTask i w = (r, w1)"
        "completeMsftTasks ms ds res1 w1 = (res', w')"
    using Cons.prems res
    by (auto split: if_splits option.splits sum.splits prod.splits)
  then show ?case
  proof cases
    case skip
    from Cons.IH [OF this] show ?thesis .
  next
    case upd
    from Cons.IH [OF upd(2)] obtain evs where evs: "calls w' = calls w1 @ evs"
        "\<forall>c \<in> set evs. \<exists>i. c = CompleteTask i" and t: "vault w' = vault w1"
      by blast
    from completeTask_eq [OF upd(1)] evs(1)
    have "calls w' = calls w @ (CompleteTask i # evs)" by simp
    moreover have "\<forall>c \<in> set (CompleteTask i # evs). \<exists>i. c = CompleteTask i"
      using evs(2) by simp
    ultimately have "\<exists>evs. calls w' = calls w @ evs \<and> (\<forall>c \<in> set evs. \<exists>i. c = CompleteTask i)"
      by blast
    with t completeTask_eq [OF upd(1)] show ?thesis by simp
  qed
qed

lemma addNewTasks_calls:
  "addNewTasks E p ts res w = Some (res', w') \<Longrightarrow>
     (\<exists>evs. calls w' = calls w @ evs \<and>
        set evs \<subseteq> {c. \<exists>t. c = AddTaskToTodoSection p t} \<union> {FindOrCreateTodoSection p})
     \<and> tasks w' = tasks w"
proof (induction ts arbitrary: res w)
  case Nil
  then show ?case by simp
next
  case (Cons t ts)
  obtain n errs where res: "res = (n, errs)" by (cases res)
  from Cons.prems res obtain r w1 where
    a: "addTaskToTodoSection E p (task_title t) w = Some (r, w1)"
    by (auto split: option.splits)
  from Cons.prems res a obtain res1 where "addNewTasks E p ts res1 w1 = Some (res', w')"
    by (cases r) auto
  from Cons.IH [OF this] obtain evs where evs: "calls w' = calls w1 @ evs"
      "set evs \<subseteq> {c. \<exists>t. c = AddTaskToTodoSection p t} \<union> {FindOrCreateTodoSection p}"
    and t: "tasks w' = tasks w1"
    by blast
  from addTask_frame [OF a] obtain evs0 where evs0: "calls w1 = calls w @ evs0"
      "set evs0 \<subseteq> {AddTaskToTodoSection p (task_title t), FindOrCreateTodoSection p}"
    and t0: "tasks w1 = tasks w"
    by auto
  have "calls w' = calls w @ (evs0 @ evs)" using evs(1) evs0(1) by simp
  moreover have "set (evs0 @ evs)
      \<subseteq> {c. \<exists>t. c = AddTaskToTodoSection p t} \<union> {FindOrCreateTodoSection p}"
    using evs(2) evs0(2) by auto
  ultimately show ?case using t t0 by (metis (lifting))
qed

lemma syncMsft_calls:
  assumes "syncMsftToObsidian E w = Some (r, w')"
  shows "(\<exists>evs. calls w' = calls w @ Enter MsftToObsidian # evs \<and> filter isEnter evs = [])
         \<and> tasks w' = tasks w"
proof -
  let ?w = "called (Enter MsftToObsidian) w"
  obtain r1 w1 where g: "getTasks ?w = (r1, w1)" by (cases "getTasks ?w")
  note g' = getTasks_eq [OF g]
  show ?thesis
  proof (cases r1)
    case (Inl e)
    with assms g have "w' = w1" by (simp add: syncMsftToObsidian_def)
    with g' show ?thesis by simp
  next
    case ms: (Inr ms)
    obtain r2 w2 where c: "createTodayNote E w1 = (r2, w2)" by (cases "createTodayNote E w1")
    note c' = createTodayNote_eq [OF c]
    show ?thesis
    proof (cases r2)
      case (Inl e)
      with assms g ms c have "w' = w2" by (simp add: syncMsftToObsidian_def)
      with g' c' show ?thesis by simp
    next
      case path: (Inr path)
      obtain r3 w3 where p: "parseDailyNoteTodos path w2 = (r3, w3)"
        by (cases "parseDailyNoteTodos path w2")
      note p' = parse_eq [OF p]
      show ?thesis
      proof (cases r3)
        case (Inl e)
        with assms g ms c path p have "w' = w3" by (simp add: syncMsftToObsidian_def)
        with g' c' p' show ?thesis by simp
      next
        case (Inr ds)
        with assms g ms c path p
        have "addNewTasks E path (filterNewTasks ms ds) (0, []) w3 = Some (r, w')"
          by (simp add: syncMsftToObsidian_def)
        from addNewTasks_calls [OF this] obtain evs where evs: "calls w' = calls w3 @ evs"
            "set evs \<subseteq> {c. \<exists>t. c = AddTaskToTodoSection path t} \<union> {FindOrCreateTodoSection path}"
          and t: "tasks w' = tasks w3"
          by blast
        from evs(2) have "filter isEnter evs = []" by (auto simp: filter_empty_conv)
        then have "filter isEnter ([GetTasks, CreateTodayNote, ParseDailyNoteTodos path] @ evs) = []"
          by simp
        moreover have "calls w' = calls w @ Enter MsftToObsidian #
            ([GetTasks, CreateTodayNote, ParseDailyNoteTodos path] @ evs)"
          using evs(1) g' c' p' by simp
        ultimately have "\<exists>evs. calls w' = calls w @ Enter MsftToObsidian # evs \<and>
            filter isEnter evs = []"
          by blast
        moreover have "tasks w' = tasks w" using t g' c' p' by simp
        ultimately show ?thesis by blast
      qed
    qed
  qed
qed

lemma syncObsidian_calls:
  assumes "syncObsidianToMsft E w = (r, w')"
  shows "(\<exists>evs. calls w' = calls w @ Enter ObsidianToMsft # evs \<and> filter isEnter evs = [])
         \<and> vault w' = vault w"
proof -
  let ?w = "called (Enter ObsidianToMsft) w"
  let ?p = "getTodayNote E"
  obtain r1 w1 where p: "parseDailyNoteTodos ?p ?w = (r1, w1)"
    by (cases "parseDailyNoteTodos ?p ?w")
  note p' = parse_eq [OF p]
  show ?thesis
  proof (cases r1)
    case (Inl e)
    with assms p have "w' = w1" by (simp add: syncObsidianToMsft_def)
    with p' show ?thesis by simp
  next
    case ds: (Inr ds)
    show ?thesis
    proof (cases "filter (\<lambda>task. \<not> completed task) ds = []")
      case True
      with assms p ds have "w' = w1" by (simp add: syncObsidianToMsft_def)
      with p' show ?thesis by simp
    next
      case False
      obtain r2 w2 where g: "getTasks w1 = (r2, w2)" by (cases "getTasks w1")
      note g' = getTasks_eq [OF g]
      show ?thesis
      proof (cases r2)
        case (Inl e)
        with assms p ds False g have "w' = w2" by (simp add: syncObsidianToMsft_def)
        with p' g' show ?thesis by simp
      next
        case ms: (Inr ms)
        obtain r3 w3 where m: "getFileModificationDate ?p w2 = (r3, w3)"
          by (cases "getFileModificationDate ?p w2")
        note m' = getMod_eq [OF m]
        show ?thesis
        proof (cases r3)
          case (Inl e)
          with assms p ds False g ms m have "w' = w3" by (simp add: syncObsidianToMsft_def Let_def)
          with p' g' m' show ?thesis by simp
        next
          case dt: (Inr dt)
          show ?thesis
          proof (cases "isoDate dt")
            case None
            with assms p ds False g ms m dt have "w' = w3"
              by (simp add: syncObsidianToMsft_def Let_def)
            with p' g' m' show ?thesis by simp
          next
            case (Some d)
            with assms p ds False g ms m dt
            have "createNewTasks d (filterNewObsidianTasks (filter (\<lambda>task. \<not> completed task) ds) ms)
                    (0, []) w3 = (r, w')"
              by (simp add: syncObsidianToMsft_def Let_def)
            from createNewTasks_calls [OF this] p' g' m' show ?thesis
              by (simp add: filter_empty_conv comp_def)
          qed
        qed
      qed
    qed
  qed
qed

lemma syncCompletions_calls:
  assumes "syncCompletions E w = (r, w')"
  shows "\<exists>evs. calls w' = calls w @ Enter Completions # evs \<and> filter isEnter evs = []"
proof -
  let ?w = "called (Enter Completions) w"
  let ?p = "getTodayNote E"
  obtain r1 w1 where p: "parseDailyNoteTodos ?p ?w = (r1, w1)"
    by (cases "parseDailyNoteTodos ?p ?w")
  note p' = parse_eq [OF p]
  show ?thesis
  proof (cases r1)
    case (Inl e)
    with assms p have "w' = w1" by (simp add: syncCompletions_def)
    with p' show ?thesis by simp
  next
    case ds: (Inr ds)
    obtain r2 w2 where g: "getTasks w1 = (r2, w2)" by (cases "getTasks w1")
    note g' = getTasks_eq [OF g]
    show ?thesis
    proof (cases r2)
      case (Inl e)
      with assms p ds g have "w' = w2" by (simp add: syncCompletions_def)
      with p' g' show ?thesis by simp
    next
      case ms: (Inr ms)
      obtain res3 w3 where l1: "completeObsidianTasks E ?p ds ms (0, []) w2 = (res3, w3)"
        by (cases "completeObsidianTasks E ?p ds ms (0, []) w2")
      with assms p ds g ms have l2: "completeMsftTasks ms ds res3 w3 = (r, w')"
        by (simp add: syncCompletions_def)
      from completeObsidianTasks_calls [OF l1] obtain e1 where e1: "calls w3 = calls w2 @ e1"
          "\<forall>c \<in> set e1. \<exists>n d. c = UpdateTaskCompletion ?p n d" by blast
      from completeMsftTasks_calls [OF l2] obtain e2 where e2: "calls w' = calls w3 @ e2"
          "\<forall>c \<in> set e2. \<exists>i. c = CompleteTask i" by blast
      have "filter isEnter e1 = []" "filter isEnter e2 = []"
        using e1(2) e2(2) by (auto simp: filter_empty_conv)
      then have "filter isEnter ([ParseDailyNoteTodos ?p, GetTasks] @ e1 @ e2) = []" by simp
      moreover have "calls w' = calls w @ Enter Completions # ([ParseDailyNoteTodos ?p, GetTasks] @ e1 @ e2)"
        using e1(1) e2(1) p' g' by simp
      ultimately show ?thesis by blast
    qed
  qed
qed

section \<open>The characters of a rendered date\<close>

lemma showNat_digits: "showNat n \<noteq> [] \<and> set (showNat n) \<subseteq> set ''0123456789''"
proof (induction n rule: showNat.induct)
  case (1 n)
  have d: "\<And>k. k < 10 \<Longrightarrow> ''0123456789'' ! k \<in> set ''0123456789''"
    by (rule nth_mem) simp
  show ?case
  proof (cases "n < 10")
    case True
    have "showNat n = [''0123456789'' ! n]" using True by (subst showNat.simps) simp
    with d [OF True] show ?thesis by simp
  next
    case False
    have e: "showNat n = showNat (n div 10) @ [''0123456789'' ! (n mod 10)]"
      using False by (subst showNat.simps) simp
    have "n mod 10 < 10" by simp
    from d [OF this] 1 False show ?thesis
      unfolding e by simp
  qed
qed

lemma pad_digits: "pad k n \<noteq> [] \<and> set (pad k n) \<subseteq> set ''0123456789''"
  using showNat_digits [of n] by (auto simp: pad_def)

lemma takeWhile_neq_append:
  "c \<notin> set a \<Longrightarrow> takeWhile (\<lambda>x. x \<noteq> c) (a @ b) = a @ takeWhile (\<lambda>x. x \<noteq> c) b"
  by (induction a) auto

lemma takeWhile_date:
  assumes "CHR ''T'' \<notin> set Y" "CHR ''T'' \<notin> set M" "CHR ''T'' \<notin> set D"
  shows "takeWhile (\<lambda>c. c \<noteq> CHR ''T'') (Y @ ''-'' @ M @ ''-'' @ D @ ''T'' @ R) =
         Y @ ''-'' @ M @ ''-'' @ D"
  using assms by (simp add: takeWhile_neq_append)

lemma isoDate_Some:
  assumes "civilFromDays (t div 86400000) = (y, m, d)"
  shows "isoDate (Some t) =
     Some ((if 0 \<le> y \<and> y \<le> 9999 then pad 4 (nat y)
            else (if y < 0 then ''-'' else ''+'') @ pad 6 (nat \<bar>y\<bar>)) @
           ''-'' @ pad 2 (nat m) @ ''-'' @ pad 2 (nat d))"
proof -
  have nt: "\<And>k n. CHR ''T'' \<notin> set (pad k n)"
    using pad_digits by fastforce
  have y: "CHR ''T'' \<notin> set (if 0 \<le> y \<and> y \<le> 9999 then pad 4 (nat y)
            else (if y < 0 then ''-'' else ''+'') @ pad 6 (nat \<bar>y\<bar>))"
    using nt by simp
  show ?thesis
    unfolding isoDate_def toISOString_def Let_def assms option.case prod.case
    by (rule arg_cong [where f = Some], rule takeWhile_date [OF y nt nt])
qed

lemma isoDate_chars:
  assumes "isoDate dt = Some d"
  shows "d \<noteq> [] \<and> set d \<subseteq> set ''0123456789-+''"
proof -
  from assms obtain t where t: "dt = Some t" by (cases dt) (auto simp: isoDate_def)
  obtain y m dd where c: "civilFromDays (t div 86400000) = (y, m, dd)"
    by (cases "civilFromDays (t div 86400000)")
  have base: "set ''0123456789'' \<subseteq> set ''0123456789-+''" by simp
  have p: "\<And>k n. set (pad k n) \<subseteq> set ''0123456789-+''"
    using pad_digits base by (meson subset_trans)
  have q: "\<And>k n. pad k n \<noteq> []" using pad_digits by simp
  have s: "set ''-'' \<subseteq> set ''0123456789-+''" "set ''+'' \<subseteq> set ''0123456789-+''"
    by simp_all
  from assms t have d: "d = (if 0 \<le> y \<and> y \<le> 9999 then pad 4 (nat y)
                       else (if y < 0 then ''-'' else ''+'') @ pad 6 (nat \<bar>y\<bar>)) @
       ''-'' @ pad 2 (nat m) @ ''-'' @ pad 2 (nat dd)"
    by (simp add: isoDate_Some [OF c])
  have yr: "set (if 0 \<le> y \<and> y \<le> 9999 then pad 4 (nat y)
                else (if y < 0 then ''-'' else ''+'') @ pad 6 (nat \<bar>y\<bar>))
            \<subseteq> set ''0123456789-+''"
  proof (cases "0 \<le> y \<and> y \<le> 9999")
    case True
    then show ?thesis by (simp only: if_True p simp_thms)
  next
    case False
    then show ?thesis
      by (cases "y < 0") (simp_all only: if_False if_True set_append Un_subset_iff p s simp_thms)
  qed
  have "set d \<subseteq> set ''0123456789-+''"
    unfolding d by (simp only: set_append Un_subset_iff p s yr simp_thms)
  moreover have "d \<noteq> []"
    unfolding d using q by (simp only: append_is_Nil_conv simp_thms)
  ultimately show ?thesis by simp
qed

section \<open>The task matcher\<close>

text \<open>
  Claim C2. For all remote and local tasks, \<open>filterNewTasks\<close> returns exactly the remote
  tasks whose normalized title (trimmed, then lowercased) equals that of no local task,
  \<open>filterNewObsidianTasks\<close> returns exactly the local tasks whose normalized title equals
  that of no remote task, and a remote/local pair with equal normalized titles is in
  neither result. The match is equality of the normalized strings and nothing weaker.
\<close>

theorem matcher_exact:
  "filterNewTasks ms ds =
     filter (\<lambda>m. \<forall>d \<in> set ds. normalizedTitle (title d) \<noteq> normalizedTitle (task_title m)) ms
   \<and> filterNewObsidianTasks ds ms =
     filter (\<lambda>d. \<forall>m \<in> set ms. normalizedTitle (task_title m) \<noteq> normalizedTitle (title d)) ds
   \<and> (\<forall>m \<in> set ms. \<forall>d \<in> set ds.
         normalizedTitle (task_title m) = normalizedTitle (title d) \<longrightarrow>
         m \<notin> set (filterNewTasks ms ds) \<and> d \<notin> set (filterNewObsidianTasks ds ms))"
proof -
  have a: "filterNewTasks ms ds =
     filter (\<lambda>m. \<forall>d \<in> set ds. normalizedTitle (title d) \<noteq> normalizedTitle (task_title m)) ms"
    unfolding filterNewTasks_def normalizedTitle_def Let_def
    by (rule filter_cong) (simp, force)
  have b: "filterNewObsidianTasks ds ms =
     filter (\<lambda>d. \<forall>m \<in> set ms. normalizedTitle (task_title m) \<noteq> normalizedTitle (title d)) ds"
    unfolding filterNewObsidianTasks_def normalizedTitle_def Let_def
    by (rule filter_cong) (simp, force)
  show ?thesis
    unfolding a b by auto
qed

text \<open>
  The matcher on the titles of the repository's tests: \<open>Task 2\<close> and \<open> TASK 2\<close> match,
  \<open>Task 3\<close> and \<open>Task  3\<close> (two spaces inside) do not.
\<close>

theorem matcher_exact_witness:
  "normalizedTitle (task_title (mkTodo ''2'' ''Task 2'')) =
     normalizedTitle (title (mkNote '' TASK 2'' False 1))
   \<and> mkTodo ''2'' ''Task 2'' \<notin>
       set (filterNewTasks [mkTodo ''1'' ''Task 1'', mkTodo ''2'' ''Task 2'', mkTodo ''3'' ''Task 3'']
              [mkNote ''Task 1'' False 0, mkNote '' TASK 2'' False 1, mkNote ''Task  3'' False 2])
   \<and> mkNote '' TASK 2'' False 1 \<notin>
       set (filterNewObsidianTasks
              [mkNote ''Task 1'' False 0, mkNote '' TASK 2'' False 1, mkNote ''Task  3'' False 2]
              [mkTodo ''1'' ''Task 1'', mkTodo ''2'' ''Task 2'', mkTodo ''3'' ''Task 3''])
   \<and> filterNewTasks [mkTodo ''1'' ''Task 1'', mkTodo ''2'' ''Task 2'', mkTodo ''3'' ''Task 3'']
        [mkNote ''Task 1'' False 0, mkNote '' TASK 2'' False 1, mkNote ''Task  3'' False 2]
       = [mkTodo ''3'' ''Task 3'']
   \<and> filterNewObsidianTasks
        [mkNote ''Task 1'' False 0, mkNote '' TASK 2'' False 1, mkNote ''Task  3'' False 2]
        [mkTodo ''1'' ''Task 1'', mkTodo ''2'' ''Task 2'', mkTodo ''3'' ''Task 3'']
       = [mkNote ''Task  3'' False 2]"
  using matcher_exact [of "[mkTodo ''1'' ''Task 1'', mkTodo ''2'' ''Task 2'', mkTodo ''3'' ''Task 3'']"
                          "[mkNote ''Task 1'' False 0, mkNote '' TASK 2'' False 1, mkNote ''Task  3'' False 2]"]
  by (simp add: mkTodo_def mkNote_def normalizedTitle_def trim_def toLowerCase_def
        toLowerChar_def isWhiteSpace_def)

section \<open>The full synchronisation\<close>

lemma phases_entered:
  assumes "syncMsftToObsidian E w = Some (r1, w1)" "syncObsidianToMsft E w1 = (r2, w2)"
    "syncCompletions E w2 = (r3, w3)"
  shows "filter isEnter (newCalls w w3) = [Enter MsftToObsidian, Enter ObsidianToMsft, Enter Completions]"
proof -
  from syncMsft_calls [OF assms(1)] obtain e1 where
    e1: "calls w1 = calls w @ Enter MsftToObsidian # e1" "filter isEnter e1 = []" by blast
  from syncObsidian_calls [OF assms(2)] obtain e2 where
    e2: "calls w2 = calls w1 @ Enter ObsidianToMsft # e2" "filter isEnter e2 = []" by blast
  from syncCompletions_calls [OF assms(3)] obtain e3 where
    e3: "calls w3 = calls w2 @ Enter Completions # e3" "filter isEnter e3 = []" by blast
  have "calls w3 = calls w @ (Enter MsftToObsidian # e1 @ Enter ObsidianToMsft # e2 @ Enter Completions # e3)"
    using e1(1) e2(1) e3(1) by simp
  from newCalls_app [OF this] e1(2) e2(2) e3(2) show ?thesis by simp
qed

lemma syncMsft_terminates:
  assumes "wfHeader E"
  shows "\<exists>y. syncMsftToObsidian E w = Some y"
  using addNewTasks_terminates [OF assms]
  by (simp add: syncMsftToObsidian_def Let_def split: prod.splits sum.splits)

text \<open>
  Claim C1. An invocation of \<open>performFullSync\<close> runs the three phases, each once and in
  the order MsftToObsidian, ObsidianToMsft, Completions, each in the world the one before
  left. The result has \<open>newTasksFromMsft\<close>, \<open>newTasksFromObsidian\<close> and
  \<open>completedTasks\<close> equal to the counts of the first, second and third phase, \<open>errors\<close>
  equal to the three error lists appended in that order, and \<open>success\<close> true exactly when
  all three lists are empty. The second and third phase always return; the first returns
  whenever the section header is well formed.
\<close>

theorem performFullSync_merges:
  "(wfHeader E \<longrightarrow> (\<exists>r1 w1. syncMsftToObsidian E w = Some (r1, w1)))
   \<and> (\<forall>r1 w1 r2 w2 r3 w3.
        syncMsftToObsidian E w = Some (r1, w1) \<and> syncObsidianToMsft E w1 = (r2, w2) \<and>
        syncCompletions E w2 = (r3, w3) \<longrightarrow>
        performFullSync E w =
          Some (\<lparr>success = (snd r1 = [] \<and> snd r2 = [] \<and> snd r3 = []),
                 newTasksFromMsft = fst r1, newTasksFromObsidian = fst r2,
                 completedTasks = fst r3, errors = snd r1 @ snd r2 @ snd r3\<rparr>, w3)
        \<and> filter isEnter (newCalls w w3) =
            [Enter MsftToObsidian, Enter ObsidianToMsft, Enter Completions])"
proof (intro conjI impI allI)
  assume "wfHeader E"
  from syncMsft_terminates [OF this] show "\<exists>r1 w1. syncMsftToObsidian E w = Some (r1, w1)"
    by auto
next
  fix r1 w1 r2 w2 r3 w3
  assume a: "syncMsftToObsidian E w = Some (r1, w1) \<and> syncObsidianToMsft E w1 = (r2, w2) \<and>
        syncCompletions E w2 = (r3, w3)"
  then show "performFullSync E w =
          Some (\<lparr>success = (snd r1 = [] \<and> snd r2 = [] \<and> snd r3 = []),
                 newTasksFromMsft = fst r1, newTasksFromObsidian = fst r2,
                 completedTasks = fst r3, errors = snd r1 @ snd r2 @ snd r3\<rparr>, w3)"
    by (simp add: performFullSync_def)
  from a phases_entered show "filter isEnter (newCalls w w3) =
            [Enter MsftToObsidian, Enter ObsidianToMsft, Enter Completions]"
    by blast
qed

text \<open>
  With the default settings, an empty vault and one remote task: the phases run, one task
  reaches the note and nothing fails.
\<close>

theorem performFullSync_merges_witness:
  "wfHeader exampleEnv
   \<and> map_option fst (performFullSync exampleEnv (exampleWorld Map.empty [mkTodo ''1'' ''Buy milk''] [])) =
       Some \<lparr>success = True, newTasksFromMsft = 1, newTasksFromObsidian = 0, completedTasks = 0,
             errors = []\<rparr>
   \<and> (\<exists>res w3. performFullSync exampleEnv (exampleWorld Map.empty [mkTodo ''1'' ''Buy milk''] []) =
                  Some (res, w3)
         \<and> filter isEnter (newCalls (exampleWorld Map.empty [mkTodo ''1'' ''Buy milk''] []) w3) =
            [Enter MsftToObsidian, Enter ObsidianToMsft, Enter Completions])"
proof -
  let ?w = "exampleWorld Map.empty [mkTodo ''1'' ''Buy milk''] []"
  have wf: "wfHeader exampleEnv" by code_simp
  have ev: "map_option fst (performFullSync exampleEnv ?w) =
       Some \<lparr>success = True, newTasksFromMsft = 1, newTasksFromObsidian = 0, completedTasks = 0,
             errors = []\<rparr>"
    by code_simp
  from performFullSync_merges [of exampleEnv ?w] wf obtain r1 w1 where
    p1: "syncMsftToObsidian exampleEnv ?w = Some (r1, w1)" by blast
  obtain r2 w2 where p2: "syncObsidianToMsft exampleEnv w1 = (r2, w2)"
    by (cases "syncObsidianToMsft exampleEnv w1")
  obtain r3 w3 where p3: "syncCompletions exampleEnv w2 = (r3, w3)"
    by (cases "syncCompletions exampleEnv w2")
  from performFullSync_merges [of exampleEnv ?w] p1 p2 p3
  have "\<exists>res. performFullSync exampleEnv ?w = Some (res, w3)
         \<and> filter isEnter (newCalls ?w w3) =
            [Enter MsftToObsidian, Enter ObsidianToMsft, Enter Completions]"
    by blast
  with wf ev show ?thesis by blast
qed

section \<open>Failures of a whole phase\<close>

text \<open>
  When an operation of a phase fails before the items are processed (the remote fetch, the
  creation or the read of the note, the read of the modification date), the phase returns
  a count of zero and exactly one error string, the one that names the phase. Whenever
  the first phase returns, \<open>performFullSync\<close> enters all three phases and returns a
  result: no failure leaves it as an exception. The first phase returns when it fails at
  its own level, whatever the section header is, and it returns for every well-formed
  section header; it is the only phase that can loop.
\<close>

theorem phase_failure_is_one_error:
  "(\<forall>e w1. getTasks (called (Enter MsftToObsidian) w) = (Inl e, w1) \<longrightarrow>
       syncMsftToObsidian E w =
         Some ((0, [''Microsoft Todo sync failed: '' @ handleApiError e]), w1))
   \<and> (\<forall>ms w1 e w2.
         getTasks (called (Enter MsftToObsidian) w) = (Inr ms, w1) \<and>
         createTodayNote E w1 = (Inl e, w2) \<longrightarrow>
         syncMsftToObsidian E w =
           Some ((0, [''Microsoft Todo sync failed: '' @ handleApiError e]), w2))
   \<and> (\<forall>ms w1 p w2 e w3.
         getTasks (called (Enter MsftToObsidian) w) = (Inr ms, w1) \<and>
         createTodayNote E w1 = (Inr p, w2) \<and> parseDailyNoteTodos p w2 = (Inl e, w3) \<longrightarrow>
         syncMsftToObsidian E w =
           Some ((0, [''Microsoft Todo sync failed: '' @ handleApiError e]), w3))
   \<and> (\<forall>e w1. parseDailyNoteTodos (getTodayNote E) (called (Enter ObsidianToMsft) w) = (Inl e, w1) \<longrightarrow>
         syncObsidianToMsft E w = ((0, [''Obsidian sync failed: '' @ handleFileError e]), w1))
   \<and> (\<forall>ds w1 e w2.
         parseDailyNoteTodos (getTodayNote E) (called (Enter ObsidianToMsft) w) = (Inr ds, w1) \<and>
         filter (\<lambda>t. \<not> completed t) ds \<noteq> [] \<and> getTasks w1 = (Inl e, w2) \<longrightarrow>
         syncObsidianToMsft E w = ((0, [''Obsidian sync failed: '' @ handleFileError e]), w2))
   \<and> (\<forall>ds w1 ms w2 e w3.
         parseDailyNoteTodos (getTodayNote E) (called (Enter ObsidianToMsft) w) = (Inr ds, w1) \<and>
         filter (\<lambda>t. \<not> completed t) ds \<noteq> [] \<and> getTasks w1 = (Inr ms, w2) \<and>
         getFileModificationDate (getTodayNote E) w2 = (Inl e, w3) \<longrightarrow>
         syncObsidianToMsft E w = ((0, [''Obsidian sync failed: '' @ handleFileError e]), w3))
   \<and> (\<forall>ds w1 ms w2 w3.
         parseDailyNoteTodos (getTodayNote E) (called (Enter ObsidianToMsft) w) = (Inr ds, w1) \<and>
         filter (\<lambda>t. \<not> completed t) ds \<noteq> [] \<and> getTasks w1 = (Inr ms, w2) \<and>
         getFileModificationDate (getTodayNote E) w2 = (Inr None, w3) \<longrightarrow>
         syncObsidianToMsft E w =
           ((0, [''Obsidian sync failed: '' @ handleFileError (Error ''Invalid time value'')]), w3))
   \<and> (\<forall>e w1. parseDailyNoteTodos (getTodayNote E) (called (Enter Completions) w) = (Inl e, w1) \<longrightarrow>
         syncCompletions E w = ((0, [''Completion sync failed: '' @ handleApiError e]), w1))
   \<and> (\<forall>ds w1 e w2.
         parseDailyNoteTodos (getTodayNote E) (called (Enter Completions) w) = (Inr ds, w1) \<and>
         getTasks w1 = (Inl e, w2) \<longrightarrow>
         syncCompletions E w = ((0, [''Completion sync failed: '' @ handleApiError e]), w2))
   \<and> (\<forall>y. syncMsftToObsidian E w = Some y \<longrightarrow>
         (\<exists>res w'. performFullSync E w = Some (res, w') \<and>
            filter isEnter (newCalls w w') =
              [Enter MsftToObsidian, Enter ObsidianToMsft, Enter Completions]))
   \<and> (wfHeader E \<longrightarrow> (\<exists>y. syncMsftToObsidian E w = Some y))"
proof (intro conjI)
  show "wfHeader E \<longrightarrow> (\<exists>y. syncMsftToObsidian E w = Some y)"
    using syncMsft_terminates [of E w] by blast
  show "\<forall>y. syncMsftToObsidian E w = Some y \<longrightarrow>
         (\<exists>res w'. performFullSync E w = Some (res, w') \<and>
            filter isEnter (newCalls w w') =
              [Enter MsftToObsidian, Enter ObsidianToMsft, Enter Completions])"
  proof (intro allI impI)
    fix y assume "syncMsftToObsidian E w = Some y"
    then obtain r1 w1 where
      p1: "syncMsftToObsidian E w = Some (r1, w1)" by (cases y) auto
    obtain r2 w2 where p2: "syncObsidianToMsft E w1 = (r2, w2)"
      by (cases "syncObsidianToMsft E w1")
    obtain r3 w3 where p3: "syncCompletions E w2 = (r3, w3)"
      by (cases "syncCompletions E w2")
    from p1 p2 p3 have "\<exists>res. performFullSync E w = Some (res, w3)"
      by (simp add: performFullSync_def)
    with phases_entered [OF p1 p2 p3] show "\<exists>res w'. performFullSync E w = Some (res, w') \<and>
            filter isEnter (newCalls w w') =
              [Enter MsftToObsidian, Enter ObsidianToMsft, Enter Completions]"
      by blast
  qed
qed (simp_all add: syncMsftToObsidian_def syncObsidianToMsft_def syncCompletions_def Let_def isoDate_def)


text \<open>
  The remote store is unreachable and the note does not exist: each phase reports its one
  error and the full synchronisation returns them.
\<close>

theorem phase_failure_is_one_error_witness:
  "fst (getTasks (called (Enter MsftToObsidian)
          (exampleWorld Map.empty [mkTodo ''1'' ''Buy milk''] [Some (Error ''ECONNREFUSED'')]))) =
     Inl (Error ''Failed to get tasks: ECONNREFUSED'')
   \<and> map_option fst (syncMsftToObsidian exampleEnv
          (exampleWorld Map.empty [mkTodo ''1'' ''Buy milk''] [Some (Error ''ECONNREFUSED'')])) =
       Some (0, [''Microsoft Todo sync failed: Failed to get tasks: ECONNREFUSED''])
   \<and> (\<exists>res w'. performFullSync exampleEnv
          (exampleWorld Map.empty [mkTodo ''1'' ''Buy milk''] [Some (Error ''ECONNREFUSED'')]) =
          Some (res, w')
        \<and> filter isEnter (newCalls
             (exampleWorld Map.empty [mkTodo ''1'' ''Buy milk''] [Some (Error ''ECONNREFUSED'')]) w') =
            [Enter MsftToObsidian, Enter ObsidianToMsft, Enter Completions])
   \<and> map_option fst (performFullSync exampleEnv
          (exampleWorld Map.empty [mkTodo ''1'' ''Buy milk''] [Some (Error ''ECONNREFUSED'')])) =
       Some \<lparr>success = False, newTasksFromMsft = 0, newTasksFromObsidian = 0, completedTasks = 0,
             errors = [''Microsoft Todo sync failed: Failed to get tasks: ECONNREFUSED'',
                       ''Obsidian sync failed: File error: Failed to parse daily note todos: File error: File not found: Daily Notes/2024-01-01.md'',
                       ''Completion sync failed: Failed to parse daily note todos: File error: File not found: Daily Notes/2024-01-01.md'']\<rparr>"
proof -
  let ?w = "exampleWorld Map.empty [mkTodo ''1'' ''Buy milk''] [Some (Error ''ECONNREFUSED'')]"
  let ?g = "getTasks (called (Enter MsftToObsidian) ?w)"
  have g: "fst ?g = Inl (Error ''Failed to get tasks: ECONNREFUSED'')" by code_simp
  then have "?g = (Inl (Error ''Failed to get tasks: ECONNREFUSED''), snd ?g)"
    by (simp add: prod_eq_iff)
  from phase_failure_is_one_error [of ?w exampleEnv, THEN conjunct1, rule_format, OF this]
  have s1: "syncMsftToObsidian exampleEnv ?w =
      Some ((0, [''Microsoft Todo sync failed: '' @
                 handleApiError (Error ''Failed to get tasks: ECONNREFUSED'')]), snd ?g)" .
  then have p1: "map_option fst (syncMsftToObsidian exampleEnv ?w) =
       Some (0, [''Microsoft Todo sync failed: Failed to get tasks: ECONNREFUSED''])"
    by (simp add: handleApiError_def Error_def)
  from phase_failure_is_one_error [of ?w exampleEnv, THEN conjunct2, THEN conjunct2,
      THEN conjunct2, THEN conjunct2, THEN conjunct2, THEN conjunct2, THEN conjunct2,
      THEN conjunct2, THEN conjunct2, THEN conjunct1, rule_format, OF s1]
  have ex: "\<exists>res w'. performFullSync exampleEnv ?w = Some (res, w')
        \<and> filter isEnter (newCalls ?w w') =
            [Enter MsftToObsidian, Enter ObsidianToMsft, Enter Completions]" .
  have ev: "map_option fst (performFullSync exampleEnv ?w) =
       Some \<lparr>success = False, newTasksFromMsft = 0, newTasksFromObsidian = 0, completedTasks = 0,
             errors = [''Microsoft Todo sync failed: Failed to get tasks: ECONNREFUSED'',
                       ''Obsidian sync failed: File error: Failed to parse daily note todos: File error: File not found: Daily Notes/2024-01-01.md'',
                       ''Completion sync failed: Failed to parse daily note todos: File error: File not found: Daily Notes/2024-01-01.md'']\<rparr>"
    by code_simp
  from g p1 ex ev show ?thesis by blast
qed

section \<open>From the note to the remote list\<close>

text \<open>
  Claim C8. When the note parses and none of its tasks is incomplete,
  \<open>syncObsidianToMsft\<close> returns a count of zero and no error right after the parse: the
  calls of the invocation are the parse alone, so \<open>getTasks\<close> is not called, the remote
  list is untouched and the one external call made is the read of the note.
\<close>

theorem no_incomplete_no_fetch:
  assumes "parseDailyNoteTodos (getTodayNote E) (called (Enter ObsidianToMsft) w) = (Inr ds, w1)"
    and "filter (\<lambda>t. \<not> completed t) ds = []"
  shows "syncObsidianToMsft E w = ((0, []), w1)
         \<and> newCalls w w1 = [Enter ObsidianToMsft, ParseDailyNoteTodos (getTodayNote E)]
         \<and> GetTasks \<notin> set (newCalls w w1)
         \<and> tasks w1 = tasks w \<and> faults w1 = tl (faults w)"
proof -
  have r: "syncObsidianToMsft E w = ((0, []), w1)"
    using assms by (simp add: syncObsidianToMsft_def Let_def)
  from parse_eq [OF assms(1)]
  have c: "calls w1 = calls w @ [Enter ObsidianToMsft, ParseDailyNoteTodos (getTodayNote E)]"
    and t: "tasks w1 = tasks w"
    by simp_all
  from newCalls_app [OF c]
  have n: "newCalls w w1 = [Enter ObsidianToMsft, ParseDailyNoteTodos (getTodayNote E)]" .
  have f: "faults w1 = tl (faults w)"
    using assms(1)
    by (auto simp: parseDailyNoteTodos_def Let_def vault_read_def fault_def called_def rethrow_def
          split: sum.splits prod.splits list.splits option.splits vault_entry.splits)
  from r n t f show ?thesis by simp
qed

text \<open>
  The test of the repository: a note whose only task is completed.
\<close>

theorem no_incomplete_no_fetch_witness:
  "fst (parseDailyNoteTodos (getTodayNote exampleEnv)
          (called (Enter ObsidianToMsft)
             (exampleWorld (noteOnly ''- [x] Completed Task'') [mkTodo ''1'' ''Other''] []))) =
     Inr [mkNote ''Completed Task'' True 0]
   \<and> filter (\<lambda>t. \<not> completed t) [mkNote ''Completed Task'' True 0] = []
   \<and> fst (syncObsidianToMsft exampleEnv
             (exampleWorld (noteOnly ''- [x] Completed Task'') [mkTodo ''1'' ''Other''] [])) = (0, [])
   \<and> GetTasks \<notin> set (newCalls (exampleWorld (noteOnly ''- [x] Completed Task'') [mkTodo ''1'' ''Other''] [])
        (snd (syncObsidianToMsft exampleEnv
             (exampleWorld (noteOnly ''- [x] Completed Task'') [mkTodo ''1'' ''Other''] []))))"
proof -
  let ?w = "exampleWorld (noteOnly ''- [x] Completed Task'') [mkTodo ''1'' ''Other''] []"
  let ?p = "parseDailyNoteTodos (getTodayNote exampleEnv) (called (Enter ObsidianToMsft) ?w)"
  have p: "fst ?p = Inr [mkNote ''Completed Task'' True 0]" by code_simp
  then have p': "?p = (Inr [mkNote ''Completed Task'' True 0], snd ?p)"
    by (simp add: prod_eq_iff)
  have f: "filter (\<lambda>t. \<not> completed t) [mkNote ''Completed Task'' True 0] = []"
    by (simp add: mkNote_def)
  from no_incomplete_no_fetch [OF p' f] p f show ?thesis by simp
qed

lemma isMod_simps [simp]:
  "isModificationDateRead (GetFileModificationDate p)" "\<not> isModificationDateRead (Enter q)"
  "\<not> isModificationDateRead GetTasks" "\<not> isModificationDateRead (CreateTask t s)"
  "\<not> isModificationDateRead (ParseDailyNoteTodos p)"
  by (simp_all add: isModificationDateRead_def)

lemma getMod_Inr:
  "getFileModificationDate p w = (Inr dt, w') \<Longrightarrow>
     \<exists>c mt. vault w p = Some (TFile c mt) \<and> dt = timeClip mt"
  by (auto simp: getFileModificationDate_def Let_def rethrow_def
        split: option.splits vault_entry.splits)

lemma createTask_tasks:
  assumes "createTask t (Some d) w = (r, w')" "d \<noteq> []"
  shows "(\<exists>e. r = Inl e \<and> tasks w' = tasks w) \<or>
         (\<exists>x. r = Inr x \<and> tasks w' = tasks w @ [x] \<and>
              startDateTime x = Some (d @ ''T09:00:00.000Z'') \<and> task_title x = trim t)"
  using assms
  by (auto simp: createTask_def Let_def rethrow_def graph_post_def fault_def called_def
        split: if_splits prod.splits sum.splits list.splits option.splits)

lemma createNewTasks_tasks:
  assumes "createNewTasks d ts res w = (res', w')" "d \<noteq> []"
  shows "\<exists>new. tasks w' = tasks w @ new \<and>
           (\<forall>x \<in> set new. startDateTime x = Some (d @ ''T09:00:00.000Z''))"
  using assms(1)
proof (induction ts arbitrary: res w)
  case Nil
  then show ?case by simp
next
  case (Cons t ts)
  obtain n errs where res: "res = (n, errs)" by (cases res)
  obtain r w1 where c: "createTask (title t) (Some d) w = (r, w1)"
    by (cases "createTask (title t) (Some d) w")
  from Cons.prems res c obtain res1 where "createNewTasks d ts res1 w1 = (res', w')"
    by (cases r) auto
  from Cons.IH [OF this] obtain new where new: "tasks w' = tasks w1 @ new"
      "\<forall>x \<in> set new. startDateTime x = Some (d @ ''T09:00:00.000Z'')"
    by blast
  from createTask_tasks [OF c assms(2)] show ?case
  proof
    assume "\<exists>e. r = Inl e \<and> tasks w1 = tasks w"
    with new show ?thesis by auto
  next
    assume "\<exists>x. r = Inr x \<and> tasks w1 = tasks w @ [x] \<and>
              startDateTime x = Some (d @ ''T09:00:00.000Z'') \<and> task_title x = trim (title t)"
    then obtain x where x: "tasks w1 = tasks w @ [x]" "startDateTime x = Some (d @ ''T09:00:00.000Z'')"
      by blast
    have "tasks w' = tasks w @ (x # new)" using new(1) x(1) by simp
    moreover have "\<forall>y \<in> set (x # new). startDateTime y = Some (d @ ''T09:00:00.000Z'')"
      using new(2) x(2) by simp
    ultimately show ?thesis by blast
  qed
qed

text \<open>
  Claim C9. In an invocation of \<open>syncObsidianToMsft\<close> that reaches the creation step (the
  note parses, some task is incomplete and the remote fetch succeeds), the note's
  modification date is read exactly once. Every \<open>createTask\<close> call of the invocation
  carries the same start date, the UTC calendar date of the note's modification time, and
  every task the invocation adds to the remote list has that date, followed by
  \<open>T09:00:00.000Z\<close>, as its start date and time.
\<close>

theorem modification_date_read_once:
  assumes "parseDailyNoteTodos (getTodayNote E) (called (Enter ObsidianToMsft) w) = (Inr ds, w1)"
    and "filter (\<lambda>task. \<not> completed task) ds \<noteq> []"
    and "getTasks w1 = (Inr ms, w2)"
    and "syncObsidianToMsft E w = (r, w')"
  shows "filter isModificationDateRead (newCalls w w') =
           [GetFileModificationDate (getTodayNote E)]
    \<and> (\<forall>t sd. CreateTask t sd \<in> set (newCalls w w') \<longrightarrow>
          (\<exists>c mt d. vault w (getTodayNote E) = Some (TFile c mt) \<and>
                isoDate (timeClip mt) = Some d \<and> sd = Some d))
    \<and> take (length (tasks w)) (tasks w') = tasks w
    \<and> (\<forall>x \<in> set (drop (length (tasks w)) (tasks w')).
          \<exists>c mt d. vault w (getTodayNote E) = Some (TFile c mt) \<and>
            isoDate (timeClip mt) = Some d \<and>
            startDateTime x = Some (d @ ''T09:00:00.000Z''))"
proof -
  let ?w = "called (Enter ObsidianToMsft) w"
  let ?p = "getTodayNote E"
  let ?pre = "[Enter ObsidianToMsft, ParseDailyNoteTodos ?p, GetTasks, GetFileModificationDate ?p]"
  note p' = parse_eq [OF assms(1)]
  have early: ?thesis if "calls w' = calls w @ ?pre" "tasks w' = tasks w"
  proof -
    from newCalls_app [OF that(1)] have "newCalls w w' = ?pre" .
    with that(2) show ?thesis by (simp add: isModificationDateRead_def)
  qed
  obtain r3 w3 where m: "getFileModificationDate ?p w2 = (r3, w3)"
    by (cases "getFileModificationDate ?p w2")
  note m' = getMod_eq [OF m]
  note g' = getTasks_eq [OF assms(3)]
  show ?thesis
  proof (cases r3)
    case (Inl e)
    with assms m have "w' = w3" by (simp add: syncObsidianToMsft_def Let_def)
    with p' g' m' show ?thesis by (intro early) simp_all
  next
    case dt: (Inr dt)
    show ?thesis
    proof (cases "isoDate dt")
      case None
      with assms m dt have "w' = w3" by (simp add: syncObsidianToMsft_def Let_def)
      with p' g' m' show ?thesis by (intro early) simp_all
    next
      case (Some d)
      let ?new = "filterNewObsidianTasks (filter (\<lambda>task. \<not> completed task) ds) ms"
      from Some assms m dt
      have l: "createNewTasks d ?new (0, []) w3 = (r, w')"
        by (simp add: syncObsidianToMsft_def Let_def)
      from m dt getMod_Inr obtain c mt where
        v2: "vault w2 ?p = Some (TFile c mt)" "dt = timeClip mt" by blast
      with p' g' Some have v: "vault w ?p = Some (TFile c mt)" "isoDate (timeClip mt) = Some d"
        by simp_all
      from isoDate_chars [OF Some] have dne: "d \<noteq> []" by simp
      from createNewTasks_calls [OF l] p' g' m'
      have "calls w' = calls w @ (?pre @ map (\<lambda>t. CreateTask (title t) (Some d)) ?new)"
        by simp
      from newCalls_app [OF this]
      have nc: "newCalls w w' = ?pre @ map (\<lambda>t. CreateTask (title t) (Some d)) ?new" .
      have f: "filter isModificationDateRead (newCalls w w') = [GetFileModificationDate ?p]"
        unfolding nc by (simp add: filter_empty_conv comp_def)
      have cr: "\<forall>t sd. CreateTask t sd \<in> set (newCalls w w') \<longrightarrow> sd = Some d"
        unfolding nc by auto
      from createNewTasks_tasks [OF l dne] p' g' m' obtain new where
        new: "tasks w' = tasks w @ new"
          "\<forall>x \<in> set new. startDateTime x = Some (d @ ''T09:00:00.000Z'')"
        by auto
      from f cr v new show ?thesis by auto
    qed
  qed
qed

text \<open>
  Scenario B: one incomplete local task and an empty remote list.
\<close>

theorem modification_date_read_once_witness:
  "fst (syncObsidianToMsft exampleEnv (exampleWorld (noteOnly ''- [ ] Write report'') [] [])) = (1, [])
   \<and> newCalls (exampleWorld (noteOnly ''- [ ] Write report'') [] [])
        (snd (syncObsidianToMsft exampleEnv (exampleWorld (noteOnly ''- [ ] Write report'') [] []))) =
       [Enter ObsidianToMsft, ParseDailyNoteTodos ''Daily Notes/2024-01-01.md'', GetTasks,
        GetFileModificationDate ''Daily Notes/2024-01-01.md'',
        CreateTask ''Write report'' (Some ''1970-01-01'')]
   \<and> filter isModificationDateRead
        (newCalls (exampleWorld (noteOnly ''- [ ] Write report'') [] [])
           (snd (syncObsidianToMsft exampleEnv (exampleWorld (noteOnly ''- [ ] Write report'') [] [])))) =
       [GetFileModificationDate (getTodayNote exampleEnv)]
   \<and> map (\<lambda>x. (task_title x, startDateTime x))
        (tasks (snd (syncObsidianToMsft exampleEnv (exampleWorld (noteOnly ''- [ ] Write report'') [] [])))) =
       [(''Write report'', Some ''1970-01-01T09:00:00.000Z'')]"
proof -
  let ?w = "exampleWorld (noteOnly ''- [ ] Write report'') [] []"
  let ?r = "syncObsidianToMsft exampleEnv ?w"
  let ?parse = "parseDailyNoteTodos (getTodayNote exampleEnv) (called (Enter ObsidianToMsft) ?w)"
  let ?ds = "[mkNote ''Write report'' False 0]"
  have a: "fst ?r = (1, [])" by code_simp
  have b: "newCalls ?w (snd ?r) =
       [Enter ObsidianToMsft, ParseDailyNoteTodos ''Daily Notes/2024-01-01.md'', GetTasks,
        GetFileModificationDate ''Daily Notes/2024-01-01.md'',
        CreateTask ''Write report'' (Some ''1970-01-01'')]"
    by code_simp
  have c: "map (\<lambda>x. (task_title x, startDateTime x)) (tasks (snd ?r)) =
       [(''Write report'', Some ''1970-01-01T09:00:00.000Z'')]"
    by code_simp
  have "fst ?parse = Inr ?ds" by code_simp
  then have h1: "?parse = (Inr ?ds, snd ?parse)" by (simp add: prod_eq_iff)
  have h2: "filter (\<lambda>task. \<not> completed task) ?ds \<noteq> []" by (simp add: mkNote_def)
  have "fst (getTasks (snd ?parse)) = Inr []" by code_simp
  then have h3: "getTasks (snd ?parse) = (Inr [], snd (getTasks (snd ?parse)))"
    by (simp add: prod_eq_iff)
  have h4: "?r = (fst ?r, snd ?r)" by simp
  from modification_date_read_once [OF h1 h2 h3 h4, THEN conjunct1]
  have "filter isModificationDateRead (newCalls ?w (snd ?r)) =
       [GetFileModificationDate (getTodayNote exampleEnv)]" .
  with a b c show ?thesis by blast
qed

section \<open>Failures of single items\<close>






lemma syncMsft_loop:
  "getTasks (called (Enter MsftToObsidian) w) = (Inr ms, wa) \<Longrightarrow>
   createTodayNote E wa = (Inr p, wb) \<Longrightarrow> parseDailyNoteTodos p wb = (Inr ex, wc) \<Longrightarrow>
   syncMsftToObsidian E w = addNewTasks E p (filterNewTasks ms ex) (0, []) wc"
  by (simp add: syncMsftToObsidian_def Let_def)




section \<open>Completion sync\<close>

text \<open>
  What the regular expressions keep of a line, and what a call of
  \<open>updateTaskCompletion\<close> does to the note.
\<close>

lemma trim_subset: "set (trim s) \<subseteq> set s"
proof -
  have "set (dropWhile isWhiteSpace (rev (dropWhile isWhiteSpace s))) \<subseteq> set s"
    by (auto dest!: set_dropWhileD)
  then show ?thesis by (simp add: trim_def)
qed

lemma completionAt_subset: "completionAt s = Some (d, r) \<Longrightarrow> set r \<subseteq> set s"
proof -
  assume a: "completionAt s = Some (d, r)"
  then have "r = drop 11 (dropWhile isWhiteSpace (drop 13 s))"
    by (auto simp: completionAt_def Let_def split: if_splits)
  moreover have "set (drop 11 (dropWhile isWhiteSpace (drop 13 s))) \<subseteq> set s"
    by (meson set_drop_subset set_dropWhileD subsetD subsetI)
  ultimately show ?thesis by simp
qed

lemma completionSearch_subset:
  "completionSearch s = Some (p, d, r) \<Longrightarrow> set p \<subseteq> set s \<and> set r \<subseteq> set s"
proof (induction s arbitrary: p d r)
  case Nil
  then show ?case by simp
next
  case (Cons c cs)
  show ?case
  proof (cases "completionAt (c # cs)")
    case None
    with Cons.prems obtain p' where
      s: "completionSearch cs = Some (p', d, r)" and p: "p = c # p'"
      by (auto split: option.splits)
    from Cons.IH [OF s] p show ?thesis by auto
  next
    case (Some a)
    then obtain d' r' where a: "completionAt (c # cs) = Some (d', r')" by (cases a) auto
    with Cons.prems have "p = []" "r = r'" by auto
    with completionAt_subset [OF a] show ?thesis by simp
  qed
qed

lemma removeCompletion_subset: "set (removeCompletion s) \<subseteq> set s"
proof (cases "completionSearch s")
  case None
  then show ?thesis by (simp add: removeCompletion_def)
next
  case (Some a)
  then obtain p d r where "completionSearch s = Some (p, d, r)" by (cases a) auto
  with completionSearch_subset [OF this] show ?thesis by (simp add: removeCompletion_def)
qed

lemma dotPlus_no_terminator: "dotPlus s = Some t \<Longrightarrow> \<forall>c \<in> set t. \<not> isLineTerminator c"
  by (auto simp: dotPlus_def Let_def split: if_splits dest: set_takeWhileD)

lemma spacesDotPlus_no_terminator:
  "spacesDotPlus k s = Some t \<Longrightarrow> \<forall>c \<in> set t. \<not> isLineTerminator c"
  by (induction k) (auto split: option.splits dest: dotPlus_no_terminator)

lemma spacesDotPlus_Some: "dotPlus s \<noteq> None \<Longrightarrow> spacesDotPlus k s \<noteq> None"
  by (induction k) (auto split: option.splits)

lemma checkboxMatch_groups:
  assumes "checkboxMatch ln = Some (indent, checked, taskText)"
  shows "indent = takeWhile isWhiteSpace ln" and "\<forall>c \<in> set taskText. \<not> isLineTerminator c"
proof -
  from assms show "indent = takeWhile isWhiteSpace ln"
    by (auto simp: checkboxMatch_def Let_def split: list.splits if_splits option.splits)
  from assms obtain k s where "spacesDotPlus k s = Some taskText"
    by (auto simp: checkboxMatch_def Let_def split: list.splits if_splits option.splits)
  from spacesDotPlus_no_terminator [OF this]
  show "\<forall>c \<in> set taskText. \<not> isLineTerminator c" .
qed

lemma completedLine_no_nl:
  assumes "checkboxMatch ln = Some (indent, checked, taskText)"
    and "CHR 0x0A \<notin> set ln" and "CHR 0x0A \<notin> set date"
  shows "CHR 0x0A \<notin> set (completedLine indent taskText date)"
proof -
  from checkboxMatch_groups [OF assms(1)]
  have i: "indent = takeWhile isWhiteSpace ln" and t: "\<forall>c \<in> set taskText. \<not> isLineTerminator c"
    by simp_all
  from i assms(2) have 1: "CHR 0x0A \<notin> set indent" by (auto dest: set_takeWhileD)
  from t have "CHR 0x0A \<notin> set taskText" by (auto simp: isLineTerminator_def)
  with removeCompletion_subset [of taskText] trim_subset [of "removeCompletion taskText"]
  have 2: "CHR 0x0A \<notin> set (trim (removeCompletion taskText))" by blast
  from 1 2 assms(3) show ?thesis by (simp add: completedLine_def)
qed

lemma completedLine_matches:
  assumes "\<forall>c \<in> set indent. isWhiteSpace c"
  shows "checkboxMatch (completedLine indent taskText date) \<noteq> None"
proof -
  let ?rest = "trim (removeCompletion taskText) @ '' '' @ ''[completion:: '' @ date @ '']''"
  have l: "completedLine indent taskText date = indent @ CHR ''-'' # '' [x] '' @ ?rest"
    by (simp add: completedLine_def)
  have nw: "\<not> isWhiteSpace (CHR ''-'')" "isWhiteSpace (CHR '' '')" "\<not> isWhiteSpace (CHR ''['')"
    by (simp_all add: isWhiteSpace_def)
  have d1: "dropWhile isWhiteSpace (completedLine indent taskText date) =
      CHR ''-'' # '' [x] '' @ ?rest"
    unfolding l using assms nw by (simp add: dropWhile_append3)
  have d2: "dotPlus (CHR '' '' # ?rest) \<noteq> None"
    by (simp add: dotPlus_def Let_def isLineTerminator_def)
  from spacesDotPlus_Some [OF d2]
  obtain t where "spacesDotPlus (length (takeWhile isWhiteSpace (CHR '' '' # ?rest)))
      (CHR '' '' # ?rest) = Some t"
    by blast
  then show ?thesis
    unfolding checkboxMatch_def Let_def d1 using nw by simp
qed

lemma checkboxMatch_indent_white:
  "checkboxMatch ln = Some (indent, checked, taskText) \<Longrightarrow> \<forall>c \<in> set indent. isWhiteSpace c"
  using checkboxMatch_groups(1) [of ln indent checked taskText] by (auto dest: set_takeWhileD)

lemma update_effect:
  assumes "updateTaskCompletion p n d w = (Inr u, w')" and "CHR 0x0A \<notin> set d"
  shows "\<exists>c t indent checked taskText.
     vault w p = Some (TFile c t) \<and> n < length (split c) \<and>
     checkboxMatch (split c ! n) = Some (indent, checked, taskText) \<and>
     vault w' = (vault w)(p \<mapsto> TFile (join ((split c)[n := completedLine indent taskText d])) (now w)) \<and>
     split (join ((split c)[n := completedLine indent taskText d])) =
       (split c)[n := completedLine indent taskText d]"
proof -
  let ?w = "called (UpdateTaskCompletion p n d) w"
  from assms(1) obtain c w1 where r: "vault_read p ?w = (Inr c, w1)"
    by (auto simp: updateTaskCompletion_def Let_def rethrow_def
          split: sum.splits prod.splits if_splits option.splits)
  from vault_read_Inr [OF r] obtain t where
    v: "vault w p = Some (TFile c t)" and v1: "vault w1 = vault w"
    by (auto simp: called_def)
  have n1: "now w1 = now w"
    using r by (auto simp: vault_read_def fault_def called_def
        split: list.splits option.splits vault_entry.splits)
  from assms(1) r have n: "n < length (split c)"
    by (auto simp: updateTaskCompletion_def Let_def rethrow_def
          split: sum.splits prod.splits if_splits option.splits)
  from assms(1) r n obtain indent checked taskText where
    m: "checkboxMatch (split c ! n) = Some (indent, checked, taskText)"
    by (auto simp: updateTaskCompletion_def Let_def rethrow_def
          split: sum.splits prod.splits if_splits option.splits)
  let ?ls = "(split c)[n := completedLine indent taskText d]"
  from assms(1) r n m v have "vault_modify p (join ?ls) w1 = (Inr u, w')"
    by (auto simp: updateTaskCompletion_def Let_def rethrow_def checkedFile_def called_def
          split: sum.splits prod.splits if_splits option.splits)
  from vault_modify_Inr [OF this] v1 n1
  have v': "vault w' = (vault w)(p \<mapsto> TFile (join ?ls) (now w))" by simp
  have "split c ! n \<in> set (split c)" using n by simp
  from split_lines_no_nl [OF this] have "CHR 0x0A \<notin> set (split c ! n)" .
  from completedLine_no_nl [OF m this assms(2)]
  have "CHR 0x0A \<notin> set (completedLine indent taskText d)" .
  then have "\<forall>l \<in> set ?ls. CHR 0x0A \<notin> set l"
    using split_lines_no_nl [of _ c] by (auto dest!: set_update_subset_insert [THEN subsetD])
  moreover have "?ls \<noteq> []" by simp
  ultimately have "split (join ?ls) = ?ls" by (rule split_join_id [rotated])
  with v n m v' show ?thesis by blast
qed

lemma update_fail:
  assumes "updateTaskCompletion p n d w = (Inl e, w')"
  shows "vault w' = vault w"
proof -
  from assms show ?thesis
    apply (simp add: updateTaskCompletion_def Let_def rethrow_def
          split: sum.splits prod.splits if_splits option.splits)
    apply (auto simp: called_def dest: vault_read_Inr vault_modify_Inl
        simp: vault_read_def fault_def split: list.splits option.splits vault_entry.splits)
    done
qed

text \<open>
  The two loops of \<open>syncCompletions\<close>.
\<close>

lemma completeMsftTasks_app:
  "completeMsftTasks ms ds res w = (res', w') \<Longrightarrow> \<exists>evs. calls w' = calls w @ evs"
  using completeMsftTasks_calls [of ms ds res w res' w'] by blast

lemma completeObsidianTasks_app:
  "completeObsidianTasks E p ds ms res w = (res', w') \<Longrightarrow> \<exists>evs. calls w' = calls w @ evs"
  using completeObsidianTasks_calls [of E p ds ms res w res' w'] by blast

lemma completeMsftTasks_invokes:
  "completeMsftTasks ms ds res w = (res', w') \<Longrightarrow> obs \<in> set ds \<Longrightarrow> completed obs \<Longrightarrow>
   completionDate obs = Some d \<Longrightarrow> d \<noteq> [] \<Longrightarrow>
   List.find (\<lambda>msftTask. toLowerCase (trim (task_title msftTask)) =
                          toLowerCase (trim (title obs))) ms = Some m \<Longrightarrow>
   status m \<noteq> Completed \<Longrightarrow>
   \<exists>evs. calls w' = calls w @ evs \<and> CompleteTask (task_id m) \<in> set evs"
proof (induction ds arbitrary: res w)
  case Nil
  then show ?case by simp
next
  case (Cons a ds)
  obtain n errs where res: "res = (n, errs)" by (cases res)
  show ?case
  proof (cases "a = obs")
    case True
    obtain r w1 where c: "completeTask (task_id m) w = (r, w1)"
      by (cases "completeTask (task_id m) w")
    from completeTask_eq [OF c] have c1: "calls w1 = calls w @ [CompleteTask (task_id m)]"
      by simp
    from Cons.prems True res c obtain res1 where
      "completeMsftTasks ms ds res1 w1 = (res', w')"
      by (cases r) auto
    from completeMsftTasks_app [OF this] c1 show ?thesis by auto
  next
    case False
    with Cons.prems have mem: "obs \<in> set ds" by simp
    have "\<exists>res1 w1 evs. completeMsftTasks ms ds res1 w1 = (res', w') \<and> calls w1 = calls w @ evs"
    proof -
      consider (skip) "completeMsftTasks ms ds res w = (res', w')"
        | (upd) i r w1 res1 where "completeTask i w = (r, w1)"
            "completeMsftTasks ms ds res1 w1 = (res', w')"
        using Cons.prems(1) res
        by (auto split: if_splits option.splits sum.splits prod.splits)
      then show ?thesis
      proof cases
        case skip
        then show ?thesis by (intro exI [of _ res] exI [of _ w] exI [of _ "[]"]) simp
      next
        case upd
        from completeTask_eq [OF upd(1)] upd(2) show ?thesis by blast
      qed
    qed
    then obtain res1 w1 evs where
      r: "completeMsftTasks ms ds res1 w1 = (res', w')" and e: "calls w1 = calls w @ evs"
      by blast
    from Cons.IH [OF r mem Cons.prems(3-7)] e show ?thesis by auto
  qed
qed

lemma completeObsidianTasks_step:
  assumes "completeObsidianTasks E p ds (m # ms) res w = (res', w')"
  obtains (skip) res1 where "completeObsidianTasks E p ds ms res1 w = (res', w')"
  | (upd) obs ts d r w1 res1 where "obs \<in> set ds" and "completedDateTime m = Some ts"
      and "isoDate (newDate E ts) = Some d"
      and "updateTaskCompletion p (line obs) d w = (r, w1)"
      and "completeObsidianTasks E p ds ms res1 w1 = (res', w')"
proof -
  obtain n errs where res: "res = (n, errs)" by (cases res)
  show thesis
  proof (cases "status m = Completed \<and> completedDateTime m \<noteq> None \<and>
                completedDateTime m \<noteq> Some []")
    case False
    with assms res have "completeObsidianTasks E p ds ms res w = (res', w')"
      by (simp split: if_splits)
    then show thesis by (rule skip)
  next
    case True
    then obtain ts where ts: "completedDateTime m = Some ts" by auto
    show thesis
    proof (cases "List.find (\<lambda>obsTask. toLowerCase (trim (title obsTask)) =
                              toLowerCase (trim (task_title m))) ds")
      case None
      with assms res True have "completeObsidianTasks E p ds ms res w = (res', w')" by simp
      then show thesis by (rule skip)
    next
      case (Some obs)
      then have mem: "obs \<in> set ds" by (auto simp: find_Some_iff)
      show thesis
      proof (cases "completed obs")
        case c: True
        with assms res True Some have "completeObsidianTasks E p ds ms res w = (res', w')"
          by simp
        then show thesis by (rule skip)
      next
        case c: False
        show thesis
        proof (cases "isoDate (newDate E ts)")
          case None
          with assms res True Some c ts obtain res1 where
            "completeObsidianTasks E p ds ms res1 w = (res', w')"
            by simp
          then show thesis by (rule skip)
        next
          case d: (Some d)
          obtain r w1 where u: "updateTaskCompletion p (line obs) d w = (r, w1)"
            by (cases "updateTaskCompletion p (line obs) d w")
          with assms res True Some c ts d obtain res1 where
            "completeObsidianTasks E p ds ms res1 w1 = (res', w')"
            by (cases r) auto
          with mem ts d u show thesis by (rule upd)
        qed
      qed
    qed
  qed
qed

lemma isoDate_no_nl: "isoDate dt = Some d \<Longrightarrow> CHR 0x0A \<notin> set d"
  using isoDate_chars [of dt d] by auto

lemma completeObsidianTasks_lines:
  assumes "completeObsidianTasks E p ds ms res w = (res', w')"
    and "vault w p = Some (TFile c t)"
  shows "\<exists>c' t'. vault w' p = Some (TFile c' t') \<and> length (split c') = length (split c) \<and>
     (\<forall>i < length (split c).
        (i \<notin> line ` set ds \<longrightarrow> split c' ! i = split c ! i) \<and>
        (checkboxMatch (split c ! i) \<noteq> None \<longrightarrow> checkboxMatch (split c' ! i) \<noteq> None))"
  using assms
proof (induction ms arbitrary: res w c t)
  case Nil
  then show ?case by auto
next
  case (Cons m ms)
  from Cons.prems(1) show ?case
  proof (cases rule: completeObsidianTasks_step)
    case (skip res1)
    from Cons.IH [OF skip Cons.prems(2)] show ?thesis .
  next
    case (upd obs ts d r w1 res1)
    show ?thesis
    proof (cases r)
      case (Inl e)
      with upd(4) have "vault w1 = vault w" by (auto dest: update_fail)
      with Cons.prems(2) have "vault w1 p = Some (TFile c t)" by simp
      from Cons.IH [OF upd(5) this] show ?thesis .
    next
      case (Inr u)
      from isoDate_no_nl [OF upd(3)] have nl: "CHR 0x0A \<notin> set d" .
      from update_effect [OF upd(4) [unfolded Inr] nl] Cons.prems(2)
      obtain indent checked taskText where
        n: "line obs < length (split c)" and
        m: "checkboxMatch (split c ! line obs) = Some (indent, checked, taskText)" and
        v: "vault w1 = (vault w)(p \<mapsto> TFile (join ((split c)[line obs := completedLine indent taskText d])) (now w))" and
        s: "split (join ((split c)[line obs := completedLine indent taskText d])) =
              (split c)[line obs := completedLine indent taskText d]"
        by auto
      let ?c1 = "join ((split c)[line obs := completedLine indent taskText d])"
      from v have v1: "vault w1 p = Some (TFile ?c1 (now w))" by simp
      from Cons.IH [OF upd(5) v1] obtain c' t' where
        a: "vault w' p = Some (TFile c' t')" and b: "length (split c') = length (split ?c1)" and
        i: "\<forall>i < length (split ?c1).
              (i \<notin> line ` set ds \<longrightarrow> split c' ! i = split ?c1 ! i) \<and>
              (checkboxMatch (split ?c1 ! i) \<noteq> None \<longrightarrow> checkboxMatch (split c' ! i) \<noteq> None)"
        by blast
      have len: "length (split ?c1) = length (split c)" by (simp add: s)
      have mt: "checkboxMatch (completedLine indent taskText d) \<noteq> None"
        using completedLine_matches [OF checkboxMatch_indent_white [OF m]] .
      have "\<forall>i < length (split c).
              (i \<notin> line ` set ds \<longrightarrow> split c' ! i = split c ! i) \<and>
              (checkboxMatch (split c ! i) \<noteq> None \<longrightarrow> checkboxMatch (split c' ! i) \<noteq> None)"
      proof (intro allI impI conjI)
        fix i assume il: "i < length (split c)" and "i \<notin> line ` set ds"
        with upd(1) have "i \<noteq> line obs" by auto
        then have "split ?c1 ! i = split c ! i" by (simp add: s)
        with i il len \<open>i \<notin> line ` set ds\<close> show "split c' ! i = split c ! i" by simp
      next
        fix i assume il: "i < length (split c)" and cm: "checkboxMatch (split c ! i) \<noteq> None"
        have "checkboxMatch (split ?c1 ! i) \<noteq> None"
        proof (cases "i = line obs")
          case True
          with il mt show ?thesis by (simp add: s)
        next
          case False
          with cm show ?thesis by (simp add: s)
        qed
        with i il len show "checkboxMatch (split c' ! i) \<noteq> None" by simp
      qed
      with a b len show ?thesis by auto
    qed
  qed
qed

lemma completeObsidianTasks_invokes:
  "completeObsidianTasks E p ds ms res w = (res', w') \<Longrightarrow> m \<in> set ms \<Longrightarrow>
   status m = Completed \<Longrightarrow> completedDateTime m = Some ts \<Longrightarrow> ts \<noteq> [] \<Longrightarrow>
   List.find (\<lambda>obsTask. toLowerCase (trim (title obsTask)) =
                         toLowerCase (trim (task_title m))) ds = Some obs \<Longrightarrow>
   \<not> completed obs \<Longrightarrow> isoDate (newDate E ts) = Some d \<Longrightarrow>
   \<exists>evs. calls w' = calls w @ evs \<and> UpdateTaskCompletion p (line obs) d \<in> set evs"
proof (induction ms arbitrary: res w)
  case Nil
  then show ?case by simp
next
  case (Cons a ms)
  obtain n errs where res: "res = (n, errs)" by (cases res)
  show ?case
  proof (cases "a = m")
    case True
    obtain r w1 where u: "updateTaskCompletion p (line obs) d w = (r, w1)"
      by (cases "updateTaskCompletion p (line obs) d w")
    from update_eq [OF u] have c1: "calls w1 = calls w @ [UpdateTaskCompletion p (line obs) d]"
      by simp
    from Cons.prems True res u obtain res1 where
      "completeObsidianTasks E p ds ms res1 w1 = (res', w')"
      by (cases r) auto
    from completeObsidianTasks_app [OF this] c1 show ?thesis by auto
  next
    case False
    with Cons.prems have mem: "m \<in> set ms" by simp
    from Cons.prems(1)
    have "\<exists>res1 w1 evs. completeObsidianTasks E p ds ms res1 w1 = (res', w') \<and>
            calls w1 = calls w @ evs"
    proof (cases rule: completeObsidianTasks_step)
      case (skip res1)
      then show ?thesis by (intro exI [of _ res1] exI [of _ w] exI [of _ "[]"]) simp
    next
      case (upd obs' ts' d' r w1 res1)
      from update_eq [OF upd(4)] upd(5) show ?thesis by blast
    qed
    then obtain res1 w1 evs where
      r: "completeObsidianTasks E p ds ms res1 w1 = (res', w')" and e: "calls w1 = calls w @ evs"
      by blast
    from Cons.IH [OF r mem Cons.prems(3-8)] e show ?thesis by auto
  qed
qed

lemma parseLines_lines:
  "obs \<in> set (parseLines k ls) \<Longrightarrow>
     k \<le> line obs \<and> line obs < k + length ls \<and> checkboxMatch (ls ! (line obs - k)) \<noteq> None"
proof (induction ls arbitrary: k)
  case Nil
  then show ?case by simp
next
  case (Cons l ls)
  show ?case
  proof (cases "obs \<in> set (parseLines (k + 1) ls)")
    case True
    from Cons.IH [OF True]
    have a: "k + 1 \<le> line obs" "line obs < k + 1 + length ls"
      "checkboxMatch (ls ! (line obs - (k + 1))) \<noteq> None"
      by simp_all
    from a(1) have "line obs - k = Suc (line obs - (k + 1))" by arith
    with a show ?thesis by simp
  next
    case False
    with Cons.prems obtain a where "parseLine k l = Some a" "obs = a"
      by (auto split: option.splits)
    then show ?thesis by (auto simp: parseLine_def split: option.splits)
  qed
qed

lemma parse_Inr:
  assumes "parseDailyNoteTodos p w = (Inr ds, w')"
  shows "\<exists>c t. vault w p = Some (TFile c t) \<and> ds = parseLines 0 (split c) \<and> vault w' = vault w"
proof -
  from assms obtain c w1 where r: "vault_read p (called (ParseDailyNoteTodos p) w) = (Inr c, w1)"
    and d: "ds = parseLines 0 (split c)" and w: "w' = w1"
    by (auto simp: parseDailyNoteTodos_def Let_def rethrow_def
          split: sum.splits prod.splits)
  from vault_read_Inr [OF r] d w show ?thesis by (auto simp: called_def)
qed

text \<open>
  Claim C6, as the code has it. A local task is sent to the remote list when it is marked
  completed \<^emph>\<open>and\<close> carries a completion date, and the remote task looked at is the first
  one of the fetched list whose normalized title equals the local one: when the note parses,
  the fetch succeeds and that first remote task is not completed, \<open>completeTask\<close> is
  called with its id during the invocation.
\<close>

theorem completed_local_completes_remote:
  assumes "parseDailyNoteTodos (getTodayNote E) (called (Enter Completions) w) = (Inr ds, w1)"
    and "getTasks w1 = (Inr ms, w2)"
    and "obs \<in> set ds" and "completed obs"
    and "completionDate obs = Some d" and "d \<noteq> []"
    and "List.find (\<lambda>msftTask. toLowerCase (trim (task_title msftTask)) =
                               toLowerCase (trim (title obs))) ms = Some m"
    and "status m \<noteq> Completed"
  shows "CompleteTask (task_id m) \<in> set (newCalls w (snd (syncCompletions E w)))"
proof -
  obtain r3 w3 where a: "completeObsidianTasks E (getTodayNote E) ds ms (0, []) w2 = (r3, w3)"
    by (cases "completeObsidianTasks E (getTodayNote E) ds ms (0, []) w2")
  obtain r4 w4 where b: "completeMsftTasks ms ds r3 w3 = (r4, w4)"
    by (cases "completeMsftTasks ms ds r3 w3")
  have s: "syncCompletions E w = (r4, w4)"
    using assms(1,2) a b by (simp add: syncCompletions_def Let_def)
  from parse_eq [OF assms(1)] have c1: "\<exists>evs. calls w1 = calls w @ evs"
    by (simp add: called_def)
  from getTasks_eq [OF assms(2)] have c2: "\<exists>evs. calls w2 = calls w1 @ evs" by simp
  from completeObsidianTasks_app [OF a] have c3: "\<exists>evs. calls w3 = calls w2 @ evs" .
  from completeMsftTasks_invokes [OF b assms(3-8)]
  obtain evs where c4: "calls w4 = calls w3 @ evs" "CompleteTask (task_id m) \<in> set evs"
    by blast
  from c1 c2 c3 c4 obtain pre where "calls w4 = calls w @ pre @ evs" by auto
  with c4(2) s show ?thesis by (simp add: newCalls_def)
qed

text \<open>
  The test of the repository: \<open>Task 1\<close> completed in the note on 2024-01-01, not started
  in the remote list.
\<close>

theorem completed_local_completes_remote_witness:
  "CompleteTask (Some ''1'') \<in>
     set (newCalls (exampleWorld (noteOnly ''- [x] Task 1 [completion:: 2024-01-01]'')
                      [mkTodo ''1'' ''Task 1''] [])
            (snd (syncCompletions exampleEnv
                    (exampleWorld (noteOnly ''- [x] Task 1 [completion:: 2024-01-01]'')
                       [mkTodo ''1'' ''Task 1''] []))))"
proof -
  let ?w = "exampleWorld (noteOnly ''- [x] Task 1 [completion:: 2024-01-01]'')
              [mkTodo ''1'' ''Task 1''] []"
  let ?obs = "\<lparr>title = ''Task 1'', completed = True, line = 0,
               completionDate = Some ''2024-01-01''\<rparr>"
  obtain r1 w1 where p: "parseDailyNoteTodos (getTodayNote exampleEnv)
      (called (Enter Completions) ?w) = (r1, w1)"
    by (cases "parseDailyNoteTodos (getTodayNote exampleEnv) (called (Enter Completions) ?w)")
  have "fst (parseDailyNoteTodos (getTodayNote exampleEnv) (called (Enter Completions) ?w)) =
      Inr [?obs]"
    by code_simp
  with p have p1: "parseDailyNoteTodos (getTodayNote exampleEnv)
      (called (Enter Completions) ?w) = (Inr [?obs], w1)"
    by simp
  obtain r2 w2 where g: "getTasks w1 = (r2, w2)" by (cases "getTasks w1")
  have "fst (getTasks (snd (parseDailyNoteTodos (getTodayNote exampleEnv)
      (called (Enter Completions) ?w)))) = Inr [mkTodo ''1'' ''Task 1'']"
    by code_simp
  with p g have g1: "getTasks w1 = (Inr [mkTodo ''1'' ''Task 1''], w2)" by simp
  have f: "List.find (\<lambda>msftTask. toLowerCase (trim (task_title msftTask)) =
                               toLowerCase (trim (title ?obs))) [mkTodo ''1'' ''Task 1''] =
           Some (mkTodo ''1'' ''Task 1'')"
    by code_simp
  have st: "status (mkTodo ''1'' ''Task 1'') \<noteq> Completed" by (simp add: mkTodo_def)
  from completed_local_completes_remote [OF p1 g1 _ _ _ _ f st, of "''2024-01-01''"]
  show ?thesis by (simp add: mkTodo_def)
qed

text \<open>
  A checked line without completion metadata parses to a completed task without a completion
  date. The remote task of the same title is not started, and yet the invocation makes no call
  of \<open>completeTask\<close>: it parses, fetches and returns a count of zero.
\<close>

theorem completed_without_date_counterexample:
  "fst (parseDailyNoteTodos (getTodayNote exampleEnv)
          (called (Enter Completions)
             (exampleWorld (noteOnly ''- [x] Task 1'') [mkTodo ''1'' ''Task 1''] []))) =
     Inr [\<lparr>title = ''Task 1'', completed = True, line = 0, completionDate = None\<rparr>]
   \<and> tasks (exampleWorld (noteOnly ''- [x] Task 1'') [mkTodo ''1'' ''Task 1''] []) =
       [mkTodo ''1'' ''Task 1'']
   \<and> status (mkTodo ''1'' ''Task 1'') = NotStarted
   \<and> fst (syncCompletions exampleEnv
            (exampleWorld (noteOnly ''- [x] Task 1'') [mkTodo ''1'' ''Task 1''] [])) = (0, [])
   \<and> newCalls (exampleWorld (noteOnly ''- [x] Task 1'') [mkTodo ''1'' ''Task 1''] [])
        (snd (syncCompletions exampleEnv
               (exampleWorld (noteOnly ''- [x] Task 1'') [mkTodo ''1'' ''Task 1''] []))) =
       [Enter Completions, ParseDailyNoteTodos ''Daily Notes/2024-01-01.md'', GetTasks]
   \<and> CompleteTask (Some ''1'') \<notin>
       set (newCalls (exampleWorld (noteOnly ''- [x] Task 1'') [mkTodo ''1'' ''Task 1''] [])
              (snd (syncCompletions exampleEnv
                     (exampleWorld (noteOnly ''- [x] Task 1'') [mkTodo ''1'' ''Task 1''] []))))"
  by code_simp

text \<open>
  What \<open>syncCompletions\<close> passes on. For a completed remote task with a completion
  timestamp whose first local match by normalized title is not completed,
  \<open>updateTaskCompletion\<close> is called on the line of that local task with the date
  \<open>new Date(timestamp).toISOString()\<close> starts with: the calendar date, in UTC, of the
  instant \<open>new Date\<close> reads from the timestamp. A call with that date that returns has
  rewritten the line into its checked form carrying the date. The timestamp
  \<open>2024-01-01T10:00:00Z\<close> gives the date \<open>2024-01-01\<close> in every environment.
\<close>

theorem remote_completion_marks_local:
  assumes "parseDailyNoteTodos (getTodayNote E) (called (Enter Completions) w) = (Inr ds, w1)"
    and "getTasks w1 = (Inr ms, w2)"
    and "m \<in> set ms" and "status m = Completed"
    and "completedDateTime m = Some ts" and "ts \<noteq> []"
    and "List.find (\<lambda>obsTask. toLowerCase (trim (title obsTask)) =
                              toLowerCase (trim (task_title m))) ds = Some obs"
    and "\<not> completed obs"
    and "isoDate (newDate E ts) = Some d"
  shows "UpdateTaskCompletion (getTodayNote E) (line obs) d \<in>
           set (newCalls w (snd (syncCompletions E w)))
       \<and> (\<forall>t y mo dd. newDate E ts = Some t \<and> civilFromDays (t div 86400000) = (y, mo, dd) \<and>
             0 \<le> y \<and> y \<le> 9999 \<longrightarrow>
             d = pad 4 (nat y) @ ''-'' @ pad 2 (nat mo) @ ''-'' @ pad 2 (nat dd))
       \<and> (\<forall>w0 w0'. updateTaskCompletion (getTodayNote E) (line obs) d w0 = (Inr (), w0') \<longrightarrow>
             (\<exists>c t indent checked taskText c'.
                vault w0 (getTodayNote E) = Some (TFile c t) \<and>
                checkboxMatch (split c ! line obs) = Some (indent, checked, taskText) \<and>
                vault w0' (getTodayNote E) = Some (TFile c' (now w0)) \<and>
                split c' = (split c)[line obs := completedLine indent taskText d]))
       \<and> isoDate (newDate E ''2024-01-01T10:00:00Z'') = Some ''2024-01-01''"
proof (intro conjI allI impI)
  obtain r3 w3 where a: "completeObsidianTasks E (getTodayNote E) ds ms (0, []) w2 = (r3, w3)"
    by (cases "completeObsidianTasks E (getTodayNote E) ds ms (0, []) w2")
  obtain r4 w4 where b: "completeMsftTasks ms ds r3 w3 = (r4, w4)"
    by (cases "completeMsftTasks ms ds r3 w3")
  have s: "syncCompletions E w = (r4, w4)"
    using assms(1,2) a b by (simp add: syncCompletions_def Let_def)
  from parse_eq [OF assms(1)] have c1: "\<exists>evs. calls w1 = calls w @ evs"
    by (simp add: called_def)
  from getTasks_eq [OF assms(2)] have c2: "\<exists>evs. calls w2 = calls w1 @ evs" by simp
  from completeObsidianTasks_invokes [OF a assms(3-9)]
  obtain evs where c3: "calls w3 = calls w2 @ evs"
    "UpdateTaskCompletion (getTodayNote E) (line obs) d \<in> set evs"
    by blast
  from completeMsftTasks_app [OF b] have c4: "\<exists>evs. calls w4 = calls w3 @ evs" .
  from c1 c2 c3 c4 have "\<exists>all. calls w4 = calls w @ all \<and>
      UpdateTaskCompletion (getTodayNote E) (line obs) d \<in> set all"
    by auto
  with s
  show "UpdateTaskCompletion (getTodayNote E) (line obs) d \<in>
           set (newCalls w (snd (syncCompletions E w)))"
    by (auto simp: newCalls_def)
next
  fix t y mo dd
  assume "newDate E ts = Some t \<and> civilFromDays (t div 86400000) = (y, mo, dd) \<and>
             0 \<le> y \<and> y \<le> 9999"
  with isoDate_Some [of t y mo dd] assms(9)
  show "d = pad 4 (nat y) @ ''-'' @ pad 2 (nat mo) @ ''-'' @ pad 2 (nat dd)" by simp
next
  fix w0 w0'
  assume u: "updateTaskCompletion (getTodayNote E) (line obs) d w0 = (Inr (), w0')"
  from update_effect [OF u isoDate_no_nl [OF assms(9)]]
  obtain c t indent checked taskText where
    "vault w0 (getTodayNote E) = Some (TFile c t)"
    "checkboxMatch (split c ! line obs) = Some (indent, checked, taskText)"
    "vault w0' = (vault w0)(getTodayNote E \<mapsto>
        TFile (join ((split c)[line obs := completedLine indent taskText d])) (now w0))"
    "split (join ((split c)[line obs := completedLine indent taskText d])) =
       (split c)[line obs := completedLine indent taskText d]"
    by blast
  then show "\<exists>c t indent checked taskText c'.
                vault w0 (getTodayNote E) = Some (TFile c t) \<and>
                checkboxMatch (split c ! line obs) = Some (indent, checked, taskText) \<and>
                vault w0' (getTodayNote E) = Some (TFile c' (now w0)) \<and>
                split c' = (split c)[line obs := completedLine indent taskText d]"
    by (intro exI [of _ c] exI [of _ t] exI [of _ indent] exI [of _ checked]
          exI [of _ taskText]
          exI [of _ "join ((split c)[line obs := completedLine indent taskText d])"]) simp
next
  show "isoDate (newDate E ''2024-01-01T10:00:00Z'') = Some ''2024-01-01''"
    by code_simp
qed

text \<open>
  The test of the repository: \<open>Task 1\<close> open in the note, completed in the remote list at
  \<open>2024-01-01T10:00:00Z\<close>.
\<close>

theorem remote_completion_marks_local_witness:
  "UpdateTaskCompletion ''Daily Notes/2024-01-01.md'' 0 ''2024-01-01'' \<in>
     set (newCalls
            (exampleWorld (noteOnly ''- [ ] Task 1'')
               [(mkTodo ''1'' ''Task 1'')\<lparr>status := Completed,
                   completedDateTime := Some ''2024-01-01T10:00:00Z''\<rparr>] [])
            (snd (syncCompletions exampleEnv
                    (exampleWorld (noteOnly ''- [ ] Task 1'')
                       [(mkTodo ''1'' ''Task 1'')\<lparr>status := Completed,
                           completedDateTime := Some ''2024-01-01T10:00:00Z''\<rparr>] []))))
   \<and> vault (snd (syncCompletions exampleEnv
                   (exampleWorld (noteOnly ''- [ ] Task 1'')
                      [(mkTodo ''1'' ''Task 1'')\<lparr>status := Completed,
                          completedDateTime := Some ''2024-01-01T10:00:00Z''\<rparr>] [])))
        ''Daily Notes/2024-01-01.md'' =
       Some (TFile ''- [x] Task 1 [completion:: 2024-01-01]'' 86400000)"
proof -
  let ?m = "(mkTodo ''1'' ''Task 1'')\<lparr>status := Completed,
              completedDateTime := Some ''2024-01-01T10:00:00Z''\<rparr>"
  let ?w = "exampleWorld (noteOnly ''- [ ] Task 1'') [?m] []"
  let ?obs = "\<lparr>title = ''Task 1'', completed = False, line = 0, completionDate = None\<rparr>"
  let ?parse = "parseDailyNoteTodos (getTodayNote exampleEnv) (called (Enter Completions) ?w)"
  obtain r1 w1 where p: "?parse = (r1, w1)" by (cases ?parse)
  have "fst ?parse = Inr [?obs]" by code_simp
  with p have p1: "?parse = (Inr [?obs], w1)" by simp
  obtain r2 w2 where g: "getTasks w1 = (r2, w2)" by (cases "getTasks w1")
  have "fst (getTasks (snd ?parse)) = Inr [?m]" by code_simp
  with p g have g1: "getTasks w1 = (Inr [?m], w2)" by simp
  have f: "List.find (\<lambda>obsTask. toLowerCase (trim (title obsTask)) =
                               toLowerCase (trim (task_title ?m))) [?obs] = Some ?obs"
    by code_simp
  have d: "isoDate (newDate exampleEnv ''2024-01-01T10:00:00Z'') = Some ''2024-01-01''"
    by code_simp
  have path: "getTodayNote exampleEnv = ''Daily Notes/2024-01-01.md''" by code_simp
  have v: "vault (snd (syncCompletions exampleEnv ?w)) ''Daily Notes/2024-01-01.md'' =
       Some (TFile ''- [x] Task 1 [completion:: 2024-01-01]'' 86400000)"
    by code_simp
  from remote_completion_marks_local [OF p1 g1 _ _ _ _ f _ d, THEN conjunct1]
  have "UpdateTaskCompletion (getTodayNote exampleEnv) 0 ''2024-01-01'' \<in>
          set (newCalls ?w (snd (syncCompletions exampleEnv ?w)))"
    by (simp add: mkTodo_def)
  with path v show ?thesis by simp
qed

text \<open>
  Claim C5. The date written is not always the date portion of the remote timestamp.
  \<open>getTasks\<close> keeps the \<open>dateTime\<close> of the remote completion, which carries no offset,
  and drops its \<open>timeZone\<close>; \<open>new Date\<close> reads such a string as local time and
  \<open>toISOString\<close> prints the date in UTC. On a machine nine hours east of Greenwich the
  stamp \<open>2024-01-01T05:00:00.0000000\<close> is written to the note as 2023-12-31, five hours
  west of Greenwich the stamp \<open>2024-01-01T19:00:00.0000000\<close> is written as 2024-01-02, and
  only on a machine on UTC is the first one written as 2024-01-01. The stamp
  \<open>2024-01-01T10:00:00Z\<close> of the tests is written as 2024-01-01.
\<close>

theorem completion_date_shifts_with_zone:
  "take 10 ''2024-01-01T05:00:00.0000000'' = ''2024-01-01''
   \<and> fst (syncCompletions (exampleEnv\<lparr>localTZA := (\<lambda>t. 32400000)\<rparr>)
            (exampleWorld (noteOnly ''- [ ] Task 1'')
               [(mkTodo ''1'' ''Task 1'')\<lparr>status := Completed,
                   completedDateTime := Some ''2024-01-01T05:00:00.0000000''\<rparr>] [])) = (1, [])
   \<and> vault (snd (syncCompletions (exampleEnv\<lparr>localTZA := (\<lambda>t. 32400000)\<rparr>)
                   (exampleWorld (noteOnly ''- [ ] Task 1'')
                      [(mkTodo ''1'' ''Task 1'')\<lparr>status := Completed,
                          completedDateTime := Some ''2024-01-01T05:00:00.0000000''\<rparr>] [])))
        ''Daily Notes/2024-01-01.md'' =
       Some (TFile ''- [x] Task 1 [completion:: 2023-12-31]'' 86400000)
   \<and> take 10 ''2024-01-01T19:00:00.0000000'' = ''2024-01-01''
   \<and> vault (snd (syncCompletions (exampleEnv\<lparr>localTZA := (\<lambda>t. - 18000000)\<rparr>)
                   (exampleWorld (noteOnly ''- [ ] Task 1'')
                      [(mkTodo ''1'' ''Task 1'')\<lparr>status := Completed,
                          completedDateTime := Some ''2024-01-01T19:00:00.0000000''\<rparr>] [])))
        ''Daily Notes/2024-01-01.md'' =
       Some (TFile ''- [x] Task 1 [completion:: 2024-01-02]'' 86400000)
   \<and> vault (snd (syncCompletions exampleEnv
                   (exampleWorld (noteOnly ''- [ ] Task 1'')
                      [(mkTodo ''1'' ''Task 1'')\<lparr>status := Completed,
                          completedDateTime := Some ''2024-01-01T05:00:00.0000000''\<rparr>] [])))
        ''Daily Notes/2024-01-01.md'' =
       Some (TFile ''- [x] Task 1 [completion:: 2024-01-01]'' 86400000)
   \<and> vault (snd (syncCompletions (exampleEnv\<lparr>localTZA := (\<lambda>t. 32400000)\<rparr>)
                   (exampleWorld (noteOnly ''- [ ] Task 1'')
                      [(mkTodo ''1'' ''Task 1'')\<lparr>status := Completed,
                          completedDateTime := Some ''2024-01-01T10:00:00Z''\<rparr>] [])))
        ''Daily Notes/2024-01-01.md'' =
       Some (TFile ''- [x] Task 1 [completion:: 2024-01-01]'' 86400000)"
  by code_simp

text \<open>
  Claim C10. On a note whose line \<open>n\<close> matches the checkbox pattern, a call of
  \<open>updateTaskCompletion\<close> with a date that holds no line feed either fails and leaves the
  vault as it was, or writes a content with the same number of lines in which line \<open>n\<close> is
  the checked line carrying the date and every other line is unchanged. In
  \<open>syncCompletions\<close>, after the loop over the remote tasks, the note has the number of
  lines it had when it was parsed, the lines that belong to no parsed task are unchanged, and
  the line index of every parsed task is in range and still points at a line that matches the
  checkbox pattern.
\<close>

theorem update_rewrites_one_line:
  "(\<forall>p n d w c t indent checked taskText.
      vault w p = Some (TFile c t) \<and> n < length (split c) \<and>
      checkboxMatch (split c ! n) = Some (indent, checked, taskText) \<and> CHR 0x0A \<notin> set d \<longrightarrow>
      (case updateTaskCompletion p n d w of
         (Inr u, w') \<Rightarrow>
           (\<exists>c'. vault w' = (vault w)(p \<mapsto> TFile c' (now w)) \<and>
                 length (split c') = length (split c) \<and>
                 split c' ! n = completedLine indent taskText d \<and>
                 (\<forall>i < length (split c). i \<noteq> n \<longrightarrow> split c' ! i = split c ! i))
       | (Inl e, w') \<Rightarrow> vault w' = vault w))
   \<and> (\<forall>E w w1 w2 w3 ds ms r3.
        parseDailyNoteTodos (getTodayNote E) (called (Enter Completions) w) = (Inr ds, w1) \<and>
        getTasks w1 = (Inr ms, w2) \<and>
        completeObsidianTasks E (getTodayNote E) ds ms (0, []) w2 = (r3, w3) \<longrightarrow>
        (\<exists>c t c' t'.
           vault w (getTodayNote E) = Some (TFile c t) \<and>
           vault w3 (getTodayNote E) = Some (TFile c' t') \<and>
           length (split c') = length (split c) \<and>
           (\<forall>i < length (split c). i \<notin> line ` set ds \<longrightarrow> split c' ! i = split c ! i) \<and>
           (\<forall>obs \<in> set ds.
              line obs < length (split c') \<and> checkboxMatch (split c' ! line obs) \<noteq> None)))"
proof (intro conjI allI impI)
  fix p n d and w :: world and c t indent checked taskText
  assume a: "vault w p = Some (TFile c t) \<and> n < length (split c) \<and>
      checkboxMatch (split c ! n) = Some (indent, checked, taskText) \<and> CHR 0x0A \<notin> set d"
  obtain r w' where u: "updateTaskCompletion p n d w = (r, w')"
    by (cases "updateTaskCompletion p n d w")
  show "case updateTaskCompletion p n d w of
         (Inr u, w') \<Rightarrow>
           (\<exists>c'. vault w' = (vault w)(p \<mapsto> TFile c' (now w)) \<and>
                 length (split c') = length (split c) \<and>
                 split c' ! n = completedLine indent taskText d \<and>
                 (\<forall>i < length (split c). i \<noteq> n \<longrightarrow> split c' ! i = split c ! i))
       | (Inl e, w') \<Rightarrow> vault w' = vault w"
  proof (cases r)
    case (Inl e)
    with u update_fail [of p n d w e w'] show ?thesis by simp
  next
    case (Inr x)
    from a have nl: "CHR 0x0A \<notin> set d" by simp
    from update_effect [OF u [unfolded Inr] nl] a
    have v: "vault w' = (vault w)(p \<mapsto> TFile (join ((split c)[n := completedLine indent taskText d])) (now w))"
      and s: "split (join ((split c)[n := completedLine indent taskText d])) =
                (split c)[n := completedLine indent taskText d]"
      by auto
    let ?c' = "join ((split c)[n := completedLine indent taskText d])"
    from a s have "length (split ?c') = length (split c)"
      "split ?c' ! n = completedLine indent taskText d"
      "\<forall>i < length (split c). i \<noteq> n \<longrightarrow> split ?c' ! i = split c ! i"
      by simp_all
    with v have "\<exists>c'. vault w' = (vault w)(p \<mapsto> TFile c' (now w)) \<and>
                 length (split c') = length (split c) \<and>
                 split c' ! n = completedLine indent taskText d \<and>
                 (\<forall>i < length (split c). i \<noteq> n \<longrightarrow> split c' ! i = split c ! i)"
      by blast
    with u Inr show ?thesis by simp
  qed
next
  fix E and w :: world and w1 w2 w3 ds ms r3
  assume a: "parseDailyNoteTodos (getTodayNote E) (called (Enter Completions) w) = (Inr ds, w1) \<and>
        getTasks w1 = (Inr ms, w2) \<and>
        completeObsidianTasks E (getTodayNote E) ds ms (0, []) w2 = (r3, w3)"
  let ?p = "getTodayNote E"
  from a parse_Inr [of ?p "called (Enter Completions) w" ds w1]
  obtain c t where v: "vault w ?p = Some (TFile c t)" and d: "ds = parseLines 0 (split c)"
    and v1: "vault w1 = vault w"
    by (auto simp: called_def)
  from a getTasks_eq [of w1 "Inr ms" w2] have v2: "vault w2 = vault w1" by simp
  from v v1 v2 have "vault w2 ?p = Some (TFile c t)" by simp
  from completeObsidianTasks_lines [OF a [THEN conjunct2, THEN conjunct2] this]
  obtain c' t' where v3: "vault w3 ?p = Some (TFile c' t')"
    and len: "length (split c') = length (split c)"
    and i: "\<forall>i < length (split c).
        (i \<notin> line ` set ds \<longrightarrow> split c' ! i = split c ! i) \<and>
        (checkboxMatch (split c ! i) \<noteq> None \<longrightarrow> checkboxMatch (split c' ! i) \<noteq> None)"
    by blast
  have "\<forall>obs \<in> set ds. line obs < length (split c') \<and> checkboxMatch (split c' ! line obs) \<noteq> None"
  proof
    fix obs assume "obs \<in> set ds"
    with d parseLines_lines [of obs 0 "split c"]
    have "line obs < length (split c)" "checkboxMatch (split c ! line obs) \<noteq> None" by auto
    with i len show "line obs < length (split c') \<and> checkboxMatch (split c' ! line obs) \<noteq> None"
      by simp
  qed
  with v v3 len i
  show "\<exists>c t c' t'.
           vault w ?p = Some (TFile c t) \<and>
           vault w3 ?p = Some (TFile c' t') \<and>
           length (split c') = length (split c) \<and>
           (\<forall>i < length (split c). i \<notin> line ` set ds \<longrightarrow> split c' ! i = split c ! i) \<and>
           (\<forall>obs \<in> set ds.
              line obs < length (split c') \<and> checkboxMatch (split c' ! line obs) \<noteq> None)"
    by blast
qed

text \<open>
  A note of three lines whose second line is completed, and a note of two open tasks that are
  both completed in the remote list.
\<close>

theorem update_rewrites_one_line_witness:
  "(\<exists>w' c'. updateTaskCompletion ''Daily Notes/2024-01-01.md'' 1 ''2024-01-01''
              (exampleWorld
                 (noteOnly (join [''## ToDo'', ''- [ ] Task 1'',
                                  ''  - [x] Task 2 [completion:: 2023-12-31]'']))
                 [] []) = (Inr (), w')
      \<and> vault w' ''Daily Notes/2024-01-01.md'' = Some (TFile c' 86400000)
      \<and> length (split c') = 3
      \<and> split c' ! 0 = ''## ToDo''
      \<and> split c' ! 1 = ''- [x] Task 1 [completion:: 2024-01-01]''
      \<and> split c' ! 2 = ''  - [x] Task 2 [completion:: 2023-12-31]'')
   \<and> (\<exists>r3 w3 c' t'.
        completeObsidianTasks exampleEnv ''Daily Notes/2024-01-01.md''
          [mkNote ''Task 1'' False 0, mkNote ''Task 2'' False 1]
          [(mkTodo ''1'' ''Task 1'')\<lparr>status := Completed,
              completedDateTime := Some ''2024-01-01T10:00:00Z''\<rparr>,
           (mkTodo ''2'' ''Task 2'')\<lparr>status := Completed,
              completedDateTime := Some ''2024-01-02T10:00:00Z''\<rparr>]
          (0, [])
          (snd (getTasks (snd (parseDailyNoteTodos ''Daily Notes/2024-01-01.md''
             (called (Enter Completions)
                (exampleWorld (noteOnly (join [''- [ ] Task 1'', ''- [ ] Task 2'']))
                   [(mkTodo ''1'' ''Task 1'')\<lparr>status := Completed,
                       completedDateTime := Some ''2024-01-01T10:00:00Z''\<rparr>,
                    (mkTodo ''2'' ''Task 2'')\<lparr>status := Completed,
                       completedDateTime := Some ''2024-01-02T10:00:00Z''\<rparr>] [])))))) =
          (r3, w3)
        \<and> vault w3 ''Daily Notes/2024-01-01.md'' = Some (TFile c' t')
        \<and> length (split c') = 2
        \<and> checkboxMatch (split c' ! 0) \<noteq> None \<and> checkboxMatch (split c' ! 1) \<noteq> None)"
proof -
  let ?c = "join [''## ToDo'', ''- [ ] Task 1'', ''  - [x] Task 2 [completion:: 2023-12-31]'']"
  let ?w = "exampleWorld (noteOnly ?c) [] []"
  let ?p = "''Daily Notes/2024-01-01.md''"
  let ?u = "updateTaskCompletion ?p 1 ''2024-01-01'' ?w"
  obtain r w' where u: "?u = (r, w')" by (cases ?u)
  have "fst ?u = Inr ()" by code_simp
  with u have u1: "?u = (Inr (), w')" by simp
  have h: "vault ?w ?p = Some (TFile ?c 0) \<and> 1 < length (split ?c) \<and>
      checkboxMatch (split ?c ! 1) = Some ([], CHR '' '', ''Task 1'') \<and>
      CHR 0x0A \<notin> set ''2024-01-01''"
    by code_simp
  have e: "length (split ?c) = 3" "split ?c ! 0 = ''## ToDo''"
    "split ?c ! 2 = ''  - [x] Task 2 [completion:: 2023-12-31]''"
    "completedLine [] ''Task 1'' ''2024-01-01'' = ''- [x] Task 1 [completion:: 2024-01-01]''"
    "now ?w = 86400000"
    by code_simp+
  from update_rewrites_one_line [THEN conjunct1, rule_format, OF h] u1
  obtain c' where c: "vault w' = (vault ?w)(?p \<mapsto> TFile c' (now ?w))"
    "length (split c') = length (split ?c)"
    "split c' ! 1 = completedLine [] ''Task 1'' ''2024-01-01''"
    "\<forall>i < length (split ?c). i \<noteq> 1 \<longrightarrow> split c' ! i = split ?c ! i"
    by auto
  from c(4) e(1) have "split c' ! 0 = split ?c ! 0" "split c' ! 2 = split ?c ! 2" by simp_all
  with c(1-3) e u1 have first: "\<exists>w' c'. ?u = (Inr (), w')
      \<and> vault w' ?p = Some (TFile c' 86400000)
      \<and> length (split c') = 3
      \<and> split c' ! 0 = ''## ToDo''
      \<and> split c' ! 1 = ''- [x] Task 1 [completion:: 2024-01-01]''
      \<and> split c' ! 2 = ''  - [x] Task 2 [completion:: 2023-12-31]''"
    by (intro exI [of _ w'] exI [of _ c']) simp
  let ?ms = "[(mkTodo ''1'' ''Task 1'')\<lparr>status := Completed,
                 completedDateTime := Some ''2024-01-01T10:00:00Z''\<rparr>,
              (mkTodo ''2'' ''Task 2'')\<lparr>status := Completed,
                 completedDateTime := Some ''2024-01-02T10:00:00Z''\<rparr>]"
  let ?ds = "[mkNote ''Task 1'' False 0, mkNote ''Task 2'' False 1]"
  let ?c2 = "join [''- [ ] Task 1'', ''- [ ] Task 2'']"
  let ?w0 = "exampleWorld (noteOnly ?c2) ?ms []"
  let ?parse = "parseDailyNoteTodos (getTodayNote exampleEnv) (called (Enter Completions) ?w0)"
  let ?get = "getTasks (snd ?parse)"
  let ?loop = "completeObsidianTasks exampleEnv (getTodayNote exampleEnv) ?ds ?ms (0, []) (snd ?get)"
  have path: "getTodayNote exampleEnv = ?p" by code_simp
  have "fst ?parse = Inr ?ds" by code_simp
  then have h1: "?parse = (Inr ?ds, snd ?parse)" by (simp add: prod_eq_iff)
  have "fst ?get = Inr ?ms" by code_simp
  then have h2: "?get = (Inr ?ms, snd ?get)" by (simp add: prod_eq_iff)
  obtain r3 w3 where h3: "?loop = (r3, w3)" by (cases ?loop)
  have v0: "vault ?w0 ?p = Some (TFile ?c2 0)" "length (split ?c2) = 2"
    "line (mkNote ''Task 1'' False 0) = 0" "line (mkNote ''Task 2'' False 1) = 1"
    by code_simp+
  from update_rewrites_one_line [THEN conjunct2, rule_format, of exampleEnv ?w0 ?ds _ ?ms,
      OF conjI [OF h1 conjI [OF h2 h3]]]
  obtain c t c' t' where k: "vault ?w0 (getTodayNote exampleEnv) = Some (TFile c t)"
    "vault w3 (getTodayNote exampleEnv) = Some (TFile c' t')"
    "length (split c') = length (split c)"
    "\<forall>obs \<in> set ?ds. line obs < length (split c') \<and> checkboxMatch (split c' ! line obs) \<noteq> None"
    by blast
  from k(1) v0(1) path have "c = ?c2" by simp
  with k(3) v0(2) have l2: "length (split c') = 2" by simp
  from k(4) v0(3,4) have "checkboxMatch (split c' ! 0) \<noteq> None"
    "checkboxMatch (split c' ! 1) \<noteq> None"
    by simp_all
  with h3 k(2) l2 path have second: "\<exists>r3 w3 c' t'.
      completeObsidianTasks exampleEnv ?p ?ds ?ms (0, [])
        (snd (getTasks (snd (parseDailyNoteTodos ?p (called (Enter Completions) ?w0))))) = (r3, w3)
      \<and> vault w3 ?p = Some (TFile c' t')
      \<and> length (split c') = 2
      \<and> checkboxMatch (split c' ! 0) \<noteq> None \<and> checkboxMatch (split c' ! 1) \<noteq> None"
    by (intro exI [of _ r3] exI [of _ w3] exI [of _ c'] exI [of _ t']) simp
  from first second show ?thesis by (rule conjI)
qed

section \<open>Running the first phase twice\<close>

text \<open>
  The line \<open>- [ ] title\<close> parses back to the trimmed title when the title has no line
  terminator and no completion metadata.
\<close>

lemma lineTerminator_white: "isLineTerminator c \<Longrightarrow> isWhiteSpace c"
  by (auto simp: isLineTerminator_def isWhiteSpace_def)

lemma trim_white_prefix: "\<forall>c \<in> set a. isWhiteSpace c \<Longrightarrow> trim (a @ b) = trim b"
  by (simp add: trim_def dropWhile_append2)

lemma trim_trim: "trim (trim s) = trim s"
proof -
  let ?d = "dropWhile isWhiteSpace s"
  let ?r = "dropWhile isWhiteSpace (rev ?d)"
  have 1: "dropWhile isWhiteSpace (rev ?r) = rev ?r"
  proof (cases "?r = []")
    case True
    show ?thesis by (simp only: True rev.simps dropWhile.simps)
  next
    case False
    have ne: "?d \<noteq> []"
    proof
      assume "?d = []"
      then have "?r = []" by (simp only: rev.simps dropWhile.simps)
      with False show False by (rule notE)
    qed
    then have h: "\<not> isWhiteSpace (hd ?d)" by (rule hd_dropWhile)
    have "\<exists>a. rev ?d = a @ ?r" by (metis takeWhile_dropWhile_id)
    then obtain a where a: "rev ?d = a @ ?r" ..
    then have "?d = rev ?r @ rev a" by (metis rev_append rev_rev_ident)
    with False have "hd (rev ?r) = hd ?d" by (metis hd_append2 rev_is_Nil_conv)
    with h have "\<not> isWhiteSpace (hd (rev ?r))" by simp
    with False show ?thesis by (cases "rev ?r") auto
  qed
  have "trim (trim s) = rev (dropWhile isWhiteSpace (rev (dropWhile isWhiteSpace (rev ?r))))"
    by (simp add: trim_def)
  also have "\<dots> = rev (dropWhile isWhiteSpace ?r)" by (simp add: 1)
  also have "dropWhile isWhiteSpace ?r = ?r" by (rule dropWhile_idem)
  finally show ?thesis by (simp add: trim_def)
qed

lemma dotPlus_no_terminators:
  "\<forall>c \<in> set s. \<not> isLineTerminator c \<Longrightarrow> s \<noteq> [] \<Longrightarrow> dotPlus s = Some s"
proof -
  assume a: "\<forall>c \<in> set s. \<not> isLineTerminator c" and "s \<noteq> []"
  from a have t: "takeWhile (\<lambda>c. \<not> isLineTerminator c) s = s"
    by simp
  show ?thesis unfolding dotPlus_def Let_def t using \<open>s \<noteq> []\<close> by simp
qed

lemma spacesDotPlus_drop:
  assumes "\<forall>c \<in> set s. \<not> isLineTerminator c" and "s \<noteq> []" and "k \<le> length s"
  shows "spacesDotPlus k s = Some (drop (min k (length s - 1)) s)"
  using assms(3)
proof (induction k)
  case 0
  with dotPlus_no_terminators [OF assms(1,2)] show ?case by simp
next
  case (Suc k)
  show ?case
  proof (cases "Suc k < length s")
    case True
    then have ne: "drop (Suc k) s \<noteq> []" by simp
    have "\<forall>c \<in> set (drop (Suc k) s). \<not> isLineTerminator c"
      using assms(1) by (auto dest: in_set_dropD)
    moreover from True have "min (Suc k) (length s - 1) = Suc k" by arith
    ultimately show ?thesis using dotPlus_no_terminators [OF _ ne] by simp
  next
    case False
    with Suc.prems have e: "Suc k = length s" by simp
    then have "dotPlus (drop (Suc k) s) = None" by (simp add: dotPlus_def)
    moreover from Suc.IH e have "spacesDotPlus k s = Some (drop (min k (length s - 1)) s)"
      by simp
    moreover from e have "min (Suc k) (length s - 1) = k" "min k (length s - 1) = k" by arith+
    ultimately show ?thesis by simp
  qed
qed

lemma take_takeWhile_all:
  "j \<le> length (takeWhile P s) \<Longrightarrow> \<forall>c \<in> set (take j s). P c"
  by (induction s arbitrary: j) (auto simp: take_Cons split: nat.splits if_splits)

lemma completionSearch_suffix:
  "completionSearch (a @ s) = None \<Longrightarrow> completionSearch s = None"
  by (induction a) (auto split: option.splits)

lemma parseLine_task:
  assumes "\<forall>c \<in> set ttl. \<not> isLineTerminator c" and "completionSearch ttl = None"
  shows "\<exists>d. parseLine i (''- [ ] '' @ ttl) = Some d \<and> title d = trim ttl"
proof -
  let ?s = "CHR '' '' # ttl"
  let ?k = "length (takeWhile isWhiteSpace ?s)"
  let ?j = "min ?k (length ?s - 1)"
  have nt: "\<forall>c \<in> set ?s. \<not> isLineTerminator c"
    using assms(1) by (simp add: isLineTerminator_def)
  have "spacesDotPlus ?k ?s = Some (drop ?j ?s)"
    by (rule spacesDotPlus_drop [OF nt]) (simp_all add: length_takeWhile_le)
  then have sp: "spacesDotPlus ?k ?s = Some (drop ?j ?s)" .
  have white: "\<forall>c \<in> set (take ?j ?s). isWhiteSpace c"
    by (rule take_takeWhile_all) simp
  have "?s = take ?j ?s @ drop ?j ?s" by simp
  then have "trim ?s = trim (drop ?j ?s)"
    using trim_white_prefix [OF white, of "drop ?j ?s"] by simp
  moreover have "trim ?s = trim ttl"
    using trim_white_prefix [of "'' ''" ttl] by (simp add: isWhiteSpace_def)
  ultimately have tr: "trim (drop ?j ?s) = trim ttl" by simp
  have "completionSearch ?s = None"
    using assms(2) by (simp add: completionAt_def startsWith_def)
  then have "completionSearch (take ?j ?s @ drop ?j ?s) = None" by simp
  then have "completionSearch (drop ?j ?s) = None" by (rule completionSearch_suffix)
  then have rm: "removeCompletion (drop ?j ?s) = drop ?j ?s" by (simp add: removeCompletion_def)
  have cm: "checkboxMatch (''- [ ] '' @ ttl) = Some ([], CHR '' '', drop ?j ?s)"
    using sp by (simp add: checkboxMatch_def Let_def isWhiteSpace_def)
  show ?thesis
    using cm rm tr by (simp add: parseLine_def)
qed

lemma parseLines_titles:
  "title ` set (parseLines k ls) =
     (\<Union>l \<in> set ls. case checkboxMatch l of None \<Rightarrow> {}
                      | Some (indent, checked, taskText) \<Rightarrow> {trim (removeCompletion taskText)})"
proof (induction ls arbitrary: k)
  case Nil
  show ?case by simp
next
  case (Cons l ls)
  show ?case
  proof (cases "checkboxMatch l")
    case None
    then show ?thesis using Cons.IH [of "k + 1"] by (simp add: parseLine_def)
  next
    case (Some a)
    obtain i c t where "a = (i, c, t)" by (cases a)
    with Some show ?thesis using Cons.IH [of "k + 1"] by (simp add: parseLine_def)
  qed
qed

lemma parseLines_titles_mono:
  "set ls \<subseteq> set ls' \<Longrightarrow> title ` set (parseLines k ls) \<subseteq> title ` set (parseLines k' ls')"
  unfolding parseLines_titles by blast

lemma parseLines_task_line:
  assumes "''- [ ] '' @ ttl \<in> set ls"
    and "\<forall>c \<in> set ttl. \<not> isLineTerminator c" and "completionSearch ttl = None"
  shows "trim ttl \<in> title ` set (parseLines k ls)"
proof -
  from parseLine_task [OF assms(2,3), of 0] obtain i c t where
    m: "checkboxMatch (''- [ ] '' @ ttl) = Some (i, c, t)" "trim (removeCompletion t) = trim ttl"
    by (auto simp: parseLine_def split: option.splits)
  have "trim ttl \<in> (case checkboxMatch (''- [ ] '' @ ttl) of None \<Rightarrow> {}
                      | Some (indent, checked, taskText) \<Rightarrow> {trim (removeCompletion taskText)})"
    by (simp only: m option.case prod.case singletonI)
  with assms(1) show ?thesis
    unfolding parseLines_titles by blast
qed

text \<open>
  \<open>addTaskToTodoSection\<close> keeps every line of the note and, when it succeeds, the note
  holds the line of the task.
\<close>

lemma split_join_superset:
  assumes "ls \<noteq> []" and "l \<in> set ls" and "CHR 0x0A \<notin> set l"
  shows "l \<in> set (split (join ls))"
proof -
  from assms(3) have "split l = [l]" by (rule split_no_nl)
  with assms(2) have "l \<in> set (concat (map split ls))" by force
  with split_join [OF assms(1)] show ?thesis by simp
qed

lemma insert_line_superset: "set xs \<subseteq> set (take k xs @ [a] @ drop k xs)"
proof -
  have "set xs = set (take k xs) \<union> set (drop k xs)"
    by (metis append_take_drop_id set_append)
  then show ?thesis by auto
qed

lemma modify_superset:
  assumes "vault_modify p (join ls') w1 = (Inr u, w')" and "set (split c) \<subseteq> set ls'"
  shows "\<exists>c' t'. vault w' p = Some (TFile c' t') \<and> set (split c) \<subseteq> set (split c') \<and>
           (\<forall>l \<in> set ls'. CHR 0x0A \<notin> set l \<longrightarrow> l \<in> set (split c'))"
proof -
  from vault_modify_Inr [OF assms(1)]
  have v: "vault w' p = Some (TFile (join ls') (now w1))" by simp
  have ne: "ls' \<noteq> []" using assms(2) split_not_Nil [of c] by (cases "split c") auto
  have a: "\<forall>l \<in> set ls'. CHR 0x0A \<notin> set l \<longrightarrow> l \<in> set (split (join ls'))"
    using split_join_superset [OF ne] by blast
  have "set (split c) \<subseteq> set (split (join ls'))"
  proof
    fix l assume l: "l \<in> set (split c)"
    from split_lines_no_nl [OF l] have "CHR 0x0A \<notin> set l" .
    with a l assms(2) show "l \<in> set (split (join ls'))" by blast
  qed
  with v a show ?thesis by blast
qed

lemma findOrCreate_lines:
  assumes "findOrCreateTodoSection E p w = (r, w')" and "vault w p = Some (TFile c t)"
  shows "\<exists>c' t'. vault w' p = Some (TFile c' t') \<and> set (split c) \<subseteq> set (split c')"
proof -
  let ?w = "called (FindOrCreateTodoSection p) w"
  let ?h = "todoSectionHeader E"
  have v0: "vault ?w p = Some (TFile c t)" using assms(2) by (simp add: called_def)
  obtain r1 w1 where rd: "vault_read p ?w = (r1, w1)" by (cases "vault_read p ?w")
  have v1: "vault w1 = vault ?w"
    using rd by (auto simp: vault_read_def fault_def split: list.splits option.splits
        vault_entry.splits)
  show ?thesis
  proof (cases r1)
    case (Inl e)
    with assms(1) rd v0 have "w' = w1"
      by (auto simp: findOrCreateTodoSection_def Let_def checkedFile_def rethrow_def)
    with v1 v0 show ?thesis by auto
  next
    case (Inr c0)
    with vault_read_Inr [of p ?w c0 w1] rd v0 have c0: "c0 = c" by auto
    show ?thesis
    proof (cases "findHeader ?h (split c)")
      case (Some i)
      with assms(1) rd v0 Inr c0 have "w' = w1"
        by (auto simp: findOrCreateTodoSection_def Let_def checkedFile_def rethrow_def)
      with v1 v0 show ?thesis by auto
    next
      case None
      obtain r2 w2 where md: "vault_modify p (join (split c @ [[], ?h, []])) w1 = (r2, w2)"
        by (cases "vault_modify p (join (split c @ [[], ?h, []])) w1")
      with assms(1) rd v0 Inr c0 None have w': "w' = w2"
        by (cases r2) (auto simp: findOrCreateTodoSection_def Let_def checkedFile_def rethrow_def)
      show ?thesis
      proof (cases r2)
        case (Inl e)
        with md vault_modify_Inl [of p _ w1 e w2] have "vault w2 = vault w1" by simp
        with w' v1 v0 show ?thesis by auto
      next
        case r2: (Inr u)
        from modify_superset [OF md [unfolded r2], of c] w' show ?thesis by auto
      qed
    qed
  qed
qed

lemma addTaskAttempt_lines:
  assumes "vault w p = Some (TFile c t)"
  shows "(\<forall>r w'. addTaskAttempt E p ttl w = Inl (r, w') \<longrightarrow>
            (\<exists>c' t'. vault w' p = Some (TFile c' t') \<and> set (split c) \<subseteq> set (split c') \<and>
               (r = Inr () \<and> CHR 0x0A \<notin> set ttl \<longrightarrow> ''- [ ] '' @ ttl \<in> set (split c'))))
       \<and> (\<forall>w'. addTaskAttempt E p ttl w = Inr w' \<longrightarrow>
            (\<exists>c' t'. vault w' p = Some (TFile c' t') \<and> set (split c) \<subseteq> set (split c')))"
proof -
  let ?h = "todoSectionHeader E"
  obtain r1 w1 where rd: "vault_read p w = (r1, w1)" by (cases "vault_read p w")
  have v1: "vault w1 = vault w"
    using rd by (auto simp: vault_read_def fault_def split: list.splits option.splits
        vault_entry.splits)
  have same: "\<exists>c' t'. vault w1 p = Some (TFile c' t') \<and> set (split c) \<subseteq> set (split c')"
    using v1 assms by auto
  show ?thesis
  proof (cases r1)
    case (Inl e)
    with rd assms have "addTaskAttempt E p ttl w = Inl (Inl e, w1)"
      by (simp add: addTaskAttempt_def checkedFile_def)
    with same show ?thesis by auto
  next
    case (Inr c0)
    with vault_read_Inr [of p w c0 w1] rd assms have c0: "c0 = c" by auto
    show ?thesis
    proof (cases "findHeader ?h (split c)")
      case None
      obtain r2 w2 where f: "findOrCreateTodoSection E p w1 = (r2, w2)"
        by (cases "findOrCreateTodoSection E p w1")
      from findOrCreate_lines [OF f] v1 assms
      have l: "\<exists>c' t'. vault w2 p = Some (TFile c' t') \<and> set (split c) \<subseteq> set (split c')"
        by simp
      from rd assms Inr c0 None f
      have "addTaskAttempt E p ttl w = (case r2 of Inl e \<Rightarrow> Inl (Inl e, w2) | Inr i \<Rightarrow> Inr w2)"
        by (simp add: addTaskAttempt_def checkedFile_def Let_def)
      with l show ?thesis by (cases r2) auto
    next
      case (Some i)
      let ?k = "findInsertIndex ?h (drop (i + 1) (split c)) (i + 1) (i + 1)"
      let ?ls = "take ?k (split c) @ [''- [ ] '' @ ttl] @ drop ?k (split c)"
      obtain r2 w2 where md: "vault_modify p (join ?ls) w1 = (r2, w2)"
        by (cases "vault_modify p (join ?ls) w1")
      from rd assms Inr c0 Some md
      have a: "addTaskAttempt E p ttl w = Inl (case r2 of Inl e \<Rightarrow> (Inl e, w2) | Inr u \<Rightarrow> (Inr (), w2))"
        by (cases r2) (simp_all add: addTaskAttempt_def checkedFile_def Let_def)
      show ?thesis
      proof (cases r2)
        case (Inl e)
        with md vault_modify_Inl [of p _ w1 e w2] have "vault w2 = vault w1" by simp
        with same a Inl show ?thesis by auto
      next
        case r2: (Inr u)
        have sub: "set (split c) \<subseteq> set ?ls" by (rule insert_line_superset)
        from modify_superset [OF md [unfolded r2] sub]
        obtain c' t' where "vault w2 p = Some (TFile c' t')" "set (split c) \<subseteq> set (split c')"
          "\<forall>l \<in> set ?ls. CHR 0x0A \<notin> set l \<longrightarrow> l \<in> set (split c')"
          by blast
        moreover have "CHR 0x0A \<notin> set ttl \<longrightarrow> CHR 0x0A \<notin> set (''- [ ] '' @ ttl)" by simp
        ultimately have "\<exists>c' t'. vault w2 p = Some (TFile c' t') \<and> set (split c) \<subseteq> set (split c') \<and>
               (CHR 0x0A \<notin> set ttl \<longrightarrow> ''- [ ] '' @ ttl \<in> set (split c'))"
          by (intro exI [of _ c'] exI [of _ t']) auto
        with a r2 show ?thesis by auto
      qed
    qed
  qed
qed

lemma addTask_lines:
  assumes "addTaskToTodoSection E p ttl w = Some y"
  shows "\<forall>c t. vault w p = Some (TFile c t) \<longrightarrow>
           (\<exists>c' t'. vault (snd y) p = Some (TFile c' t') \<and> set (split c) \<subseteq> set (split c') \<and>
              (fst y = Inr () \<and> CHR 0x0A \<notin> set ttl \<longrightarrow> ''- [ ] '' @ ttl \<in> set (split c')))"
  using assms
proof (rule addTask_raw)
  fix w r
  assume a: "addTaskAttempt E p ttl (called (AddTaskToTodoSection p ttl) w) = Inl r"
  let ?y = "rethrow (\<lambda>e. Error (''Failed to add task: '' @ handleFileError e)) r"
  have s: "snd ?y = snd r" "fst ?y = Inr () \<longleftrightarrow> fst r = Inr ()"
    by (cases r; cases "fst r"; simp add: rethrow_def)+
  show "\<forall>c t. vault w p = Some (TFile c t) \<longrightarrow>
           (\<exists>c' t'. vault (snd ?y) p = Some (TFile c' t') \<and> set (split c) \<subseteq> set (split c') \<and>
              (fst ?y = Inr () \<and> CHR 0x0A \<notin> set ttl \<longrightarrow> ''- [ ] '' @ ttl \<in> set (split c')))"
  proof (intro allI impI)
    fix c t assume "vault w p = Some (TFile c t)"
    then have "vault (called (AddTaskToTodoSection p ttl) w) p = Some (TFile c t)"
      by (simp add: called_def)
    from addTaskAttempt_lines [OF this, of E ttl, THEN conjunct1, rule_format, of "fst r" "snd r"] a
    show "\<exists>c' t'. vault (snd ?y) p = Some (TFile c' t') \<and> set (split c) \<subseteq> set (split c') \<and>
              (fst ?y = Inr () \<and> CHR 0x0A \<notin> set ttl \<longrightarrow> ''- [ ] '' @ ttl \<in> set (split c'))"
      unfolding s by simp
  qed
next
  fix w w1 :: world and y :: "(js_error + unit) \<times> world"
  assume a: "addTaskAttempt E p ttl (called (AddTaskToTodoSection p ttl) w) = Inr w1"
    and ih: "\<forall>c t. vault w1 p = Some (TFile c t) \<longrightarrow>
           (\<exists>c' t'. vault (snd y) p = Some (TFile c' t') \<and> set (split c) \<subseteq> set (split c') \<and>
              (fst y = Inr () \<and> CHR 0x0A \<notin> set ttl \<longrightarrow> ''- [ ] '' @ ttl \<in> set (split c')))"
  show "\<forall>c t. vault w p = Some (TFile c t) \<longrightarrow>
           (\<exists>c' t'. vault (snd y) p = Some (TFile c' t') \<and> set (split c) \<subseteq> set (split c') \<and>
              (fst y = Inr () \<and> CHR 0x0A \<notin> set ttl \<longrightarrow> ''- [ ] '' @ ttl \<in> set (split c')))"
  proof (intro allI impI)
    fix c t assume "vault w p = Some (TFile c t)"
    then have "vault (called (AddTaskToTodoSection p ttl) w) p = Some (TFile c t)"
      by (simp add: called_def)
    from addTaskAttempt_lines [OF this, of E ttl, THEN conjunct2, rule_format, OF a]
    obtain c1 t1 where 1: "vault w1 p = Some (TFile c1 t1)" "set (split c) \<subseteq> set (split c1)"
      by blast
    from ih [rule_format, OF 1(1)] obtain c' t' where
      "vault (snd y) p = Some (TFile c' t')" "set (split c1) \<subseteq> set (split c')"
      "fst y = Inr () \<and> CHR 0x0A \<notin> set ttl \<longrightarrow> ''- [ ] '' @ ttl \<in> set (split c')"
      by blast
    with 1(2) show "\<exists>c' t'. vault (snd y) p = Some (TFile c' t') \<and> set (split c) \<subseteq> set (split c') \<and>
              (fst y = Inr () \<and> CHR 0x0A \<notin> set ttl \<longrightarrow> ''- [ ] '' @ ttl \<in> set (split c'))"
      by (intro exI [of _ c'] exI [of _ t']) auto
  qed
qed

lemma addNewTasks_errs:
  "addNewTasks E p ts (n, errs) w = Some (res, w') \<Longrightarrow> \<exists>more. snd res = errs @ more"
proof (induction ts arbitrary: n errs w)
  case Nil
  then show ?case by auto
next
  case (Cons x ts)
  from Cons.prems obtain r w1 where
    a: "addTaskToTodoSection E p (task_title x) w = Some (r, w1)"
    by (auto split: option.splits)
  show ?case
  proof (cases r)
    case (Inl e)
    with Cons.prems a have "addNewTasks E p ts (n, errs @ [addFailure x e]) w1 = Some (res, w')"
      by simp
    from Cons.IH [OF this] show ?thesis by auto
  next
    case (Inr u)
    with Cons.prems a have "addNewTasks E p ts (n + 1, errs) w1 = Some (res, w')" by simp
    from Cons.IH [OF this] show ?thesis .
  qed
qed

lemma addNewTasks_init:
  "addNewTasks E p ts res w = Some (res', w') \<Longrightarrow>
     graphClient w' = graphClient w \<and> listId w' = listId w"
proof (induction ts arbitrary: res w)
  case Nil
  then show ?case by simp
next
  case (Cons x ts)
  obtain n errs where res: "res = (n, errs)" by (cases res)
  from Cons.prems res obtain r w1 where
    a: "addTaskToTodoSection E p (task_title x) w = Some (r, w1)"
    by (auto split: option.splits)
  from addTask_frame [OF a] have f: "graphClient w1 = graphClient w" "listId w1 = listId w"
    by simp_all
  from Cons.prems res a obtain res1 where "addNewTasks E p ts res1 w1 = Some (res', w')"
    by (cases r) auto
  from Cons.IH [OF this] f show ?case by simp
qed

lemma addNewTasks_lines:
  "addNewTasks E p ts (n, errs) w = Some (res, w') \<Longrightarrow> snd res = [] \<Longrightarrow>
   vault w p = Some (TFile c t) \<Longrightarrow> \<forall>x \<in> set ts. CHR 0x0A \<notin> set (task_title x) \<Longrightarrow>
   \<exists>c' t'. vault w' p = Some (TFile c' t') \<and> set (split c) \<subseteq> set (split c') \<and>
     (\<forall>x \<in> set ts. ''- [ ] '' @ task_title x \<in> set (split c'))"
proof (induction ts arbitrary: n errs w c t)
  case Nil
  then show ?case by auto
next
  case (Cons x ts)
  from Cons.prems(1) obtain r w1 where
    a: "addTaskToTodoSection E p (task_title x) w = Some (r, w1)"
    by (auto split: option.splits)
  show ?case
  proof (cases r)
    case (Inl e)
    with Cons.prems(1) a
    have "addNewTasks E p ts (n, errs @ [addFailure x e]) w1 = Some (res, w')" by simp
    from addNewTasks_errs [OF this] Cons.prems(2) show ?thesis by simp
  next
    case (Inr u)
    with Cons.prems(1) a have run: "addNewTasks E p ts (n + 1, errs) w1 = Some (res, w')"
      by simp
    from Cons.prems(4) have nl: "CHR 0x0A \<notin> set (task_title x)"
      and rest: "\<forall>x \<in> set ts. CHR 0x0A \<notin> set (task_title x)"
      by simp_all
    from addTask_lines [OF a, rule_format, OF Cons.prems(3)] Inr nl
    obtain c1 t1 where 1: "vault w1 p = Some (TFile c1 t1)" "set (split c) \<subseteq> set (split c1)"
      "''- [ ] '' @ task_title x \<in> set (split c1)"
      by auto
    from Cons.IH [OF run Cons.prems(2) 1(1) rest]
    obtain c' t' where 2: "vault w' p = Some (TFile c' t')" "set (split c1) \<subseteq> set (split c')"
      "\<forall>x \<in> set ts. ''- [ ] '' @ task_title x \<in> set (split c')"
      by blast
    from 1 2 show ?thesis by (intro exI [of _ c'] exI [of _ t']) auto
  qed
qed

lemma getTasks_Inr:
  "getTasks w = (Inr ms, w') \<Longrightarrow> ms = tasks w \<and> initialized w"
  by (auto simp: getTasks_def Let_def graph_get_def fault_def called_def initialized_def
        split: if_splits list.splits option.splits)

lemma getTasks_ok:
  assumes "faults w = []" and "initialized w"
  shows "getTasks w = (Inr (tasks w), called GetTasks w)"
  using assms by (simp add: getTasks_def Let_def graph_get_def fault_def rethrow_def)

lemma createTodayNote_path:
  "createTodayNote E w = (Inr p, w') \<Longrightarrow> p = getTodayNote E"
  by (auto simp: createTodayNote_def Let_def split: if_splits prod.splits sum.splits)

lemma createTodayNote_exists:
  "vault w (getTodayNote E) = Some (TFile c t) \<Longrightarrow>
     createTodayNote E w = (Inr (getTodayNote E), called CreateTodayNote w)"
  by (simp add: createTodayNote_def Let_def rethrow_def)

lemma parse_ok:
  "vault w p = Some (TFile c t) \<Longrightarrow> faults w = [] \<Longrightarrow>
     parseDailyNoteTodos p w = (Inr (parseLines 0 (split c)), called (ParseDailyNoteTodos p) w)"
  by (simp add: parseDailyNoteTodos_def Let_def rethrow_def checkedFile_def vault_read_def
        fault_def)

lemma filterNewTasks_Nil:
  assumes "\<forall>m \<in> set ms. toLowerCase (trim (task_title m)) \<in>
             (\<lambda>x. toLowerCase (trim x)) ` title ` set ex"
  shows "filterNewTasks ms ex = []"
proof -
  have "set (map (\<lambda>task. toLowerCase (trim (title task))) ex) =
          (\<lambda>x. toLowerCase (trim x)) ` title ` set ex"
    by auto
  with assms show ?thesis by (simp add: filterNewTasks_def Let_def filter_empty_conv)
qed

lemma filterNewTasks_cases:
  "m \<in> set ms \<Longrightarrow>
     m \<in> set (filterNewTasks ms ex) \<or>
     toLowerCase (trim (task_title m)) \<in> (\<lambda>x. toLowerCase (trim x)) ` title ` set ex"
  by (auto simp: filterNewTasks_def Let_def)

lemma second_run:
  assumes v: "vault w1 (getTodayNote E) = Some (TFile c1 t1)"
    and cover: "\<forall>m \<in> set (tasks w1). toLowerCase (trim (task_title m)) \<in>
                  (\<lambda>x. toLowerCase (trim x)) ` title ` set (parseLines 0 (split c1))"
  shows "\<exists>r2 w2. syncMsftToObsidian E w1 = Some (r2, w2) \<and> fst r2 = 0 \<and>
           (faults w1 = [] \<and> initialized w1 \<longrightarrow> snd r2 = [])"
proof -
  let ?v = "called (Enter MsftToObsidian) w1"
  let ?p = "getTodayNote E"
  obtain rg wg where g: "getTasks ?v = (rg, wg)" by (cases "getTasks ?v")
  from getTasks_eq [OF g] have vg: "vault wg = vault w1" by simp
  show ?thesis
  proof (cases rg)
    case (Inl e)
    with g have "syncMsftToObsidian E w1 =
        Some ((0, [''Microsoft Todo sync failed: '' @ handleApiError e]), wg)"
      by (simp add: syncMsftToObsidian_def Let_def)
    moreover have "\<not> (faults w1 = [] \<and> initialized w1)"
      using getTasks_ok [of ?v] g Inl by auto
    ultimately show ?thesis by simp
  next
    case (Inr ms)
    with getTasks_Inr [of ?v ms wg] g have ms: "ms = tasks w1" by simp
    from vg v have "vault wg ?p = Some (TFile c1 t1)" by simp
    from createTodayNote_exists [OF this]
    have c: "createTodayNote E wg = (Inr ?p, called CreateTodayNote wg)" .
    let ?wc = "called CreateTodayNote wg"
    have vc: "vault ?wc ?p = Some (TFile c1 t1)" using vg v by simp
    obtain rp wp where p: "parseDailyNoteTodos ?p ?wc = (rp, wp)"
      by (cases "parseDailyNoteTodos ?p ?wc")
    show ?thesis
    proof (cases rp)
      case e: (Inl e)
      with g Inr c p have "syncMsftToObsidian E w1 =
          Some ((0, [''Microsoft Todo sync failed: '' @ handleApiError e]), wp)"
        by (simp add: syncMsftToObsidian_def Let_def)
      moreover have "\<not> (faults w1 = [] \<and> initialized w1)"
      proof
        assume a: "faults w1 = [] \<and> initialized w1"
        with getTasks_ok [of ?v] g have "wg = called GetTasks ?v" by simp
        with a have "faults ?wc = []" by simp
        from parse_ok [OF vc this] p e show False by simp
      qed
      ultimately show ?thesis by simp
    next
      case ex: (Inr ex)
      with parse_Inr [of ?p ?wc ex wp] p vc have "ex = parseLines 0 (split c1)" by auto
      with cover ms have "filterNewTasks ms ex = []" by (intro filterNewTasks_Nil) simp
      with g Inr c p ex have "syncMsftToObsidian E w1 = Some ((0, []), wp)"
        by (simp add: syncMsftToObsidian_def Let_def)
      then show ?thesis by simp
    qed
  qed
qed

text \<open>
  Claim C7, as the code has it. When a call of \<open>syncMsftToObsidian\<close> returns without an
  error and no remote title holds a line terminator or completion metadata
  \<open>[completion:: YYYY-MM-DD]\<close>, a second call from the state the first one left returns,
  and it returns a count of zero; when no fault is scheduled for it, it returns no error
  either. Every line the first call added parses back to the trimmed title of its remote task,
  and every line that was in the note is still there.
\<close>

theorem second_sync_creates_nothing:
  assumes "syncMsftToObsidian E w = Some ((n, []), w1)"
    and "\<forall>m \<in> set (tasks w). (\<forall>c \<in> set (task_title m). \<not> isLineTerminator c) \<and>
                               completionSearch (task_title m) = None"
  shows "\<exists>r2 w2. syncMsftToObsidian E w1 = Some (r2, w2) \<and> fst r2 = 0 \<and>
           (faults w1 = [] \<longrightarrow> snd r2 = [])"
proof -
  let ?w0 = "called (Enter MsftToObsidian) w"
  from assms(1) obtain ms wa p wb ex wc where
    g: "getTasks ?w0 = (Inr ms, wa)" and c: "createTodayNote E wa = (Inr p, wb)"
    and pr: "parseDailyNoteTodos p wb = (Inr ex, wc)"
    and run: "addNewTasks E p (filterNewTasks ms ex) (0, []) wc = Some ((n, []), w1)"
    by (auto simp: syncMsftToObsidian_def Let_def split: prod.splits sum.splits)
  from createTodayNote_path [OF c] have p: "p = getTodayNote E" .
  from getTasks_Inr [OF g] have ms: "ms = tasks w" and init: "initialized w" by simp_all
  from parse_Inr [OF pr] obtain c0 t0 where
    v0: "vault wb p = Some (TFile c0 t0)" and ex: "ex = parseLines 0 (split c0)"
    and vc: "vault wc = vault wb"
    by blast
  have nl: "\<forall>x \<in> set (filterNewTasks ms ex). CHR 0x0A \<notin> set (task_title x)"
    using assms(2) ms by (auto simp: filterNewTasks_def Let_def isLineTerminator_def)
  from v0 vc have "vault wc p = Some (TFile c0 t0)" by simp
  from addNewTasks_lines [OF run _ this nl]
  obtain c1 t1 where v1: "vault w1 p = Some (TFile c1 t1)"
    and sub: "set (split c0) \<subseteq> set (split c1)"
    and added: "\<forall>x \<in> set (filterNewTasks ms ex). ''- [ ] '' @ task_title x \<in> set (split c1)"
    by auto
  from syncMsft_calls [OF assms(1)] have t1: "tasks w1 = tasks w" by simp
  have cover: "\<forall>m \<in> set (tasks w1). toLowerCase (trim (task_title m)) \<in>
                 (\<lambda>x. toLowerCase (trim x)) ` title ` set (parseLines 0 (split c1))"
  proof
    fix m assume "m \<in> set (tasks w1)"
    with t1 ms have m: "m \<in> set ms" by simp
    from filterNewTasks_cases [OF m, of ex]
    show "toLowerCase (trim (task_title m)) \<in>
            (\<lambda>x. toLowerCase (trim x)) ` title ` set (parseLines 0 (split c1))"
    proof
      assume "m \<in> set (filterNewTasks ms ex)"
      with added have "''- [ ] '' @ task_title m \<in> set (split c1)" by simp
      moreover from assms(2) m ms have "\<forall>c \<in> set (task_title m). \<not> isLineTerminator c"
        "completionSearch (task_title m) = None"
        by simp_all
      ultimately have "trim (task_title m) \<in> title ` set (parseLines 0 (split c1))"
        by (rule parseLines_task_line)
      then have "toLowerCase (trim (trim (task_title m))) \<in>
          (\<lambda>x. toLowerCase (trim x)) ` title ` set (parseLines 0 (split c1))"
        by (rule imageI)
      then show ?thesis by (simp only: trim_trim)
    next
      assume "toLowerCase (trim (task_title m)) \<in> (\<lambda>x. toLowerCase (trim x)) ` title ` set ex"
      with parseLines_titles_mono [OF sub, of 0 0] ex show ?thesis by blast
    qed
  qed
  have i1: "initialized w1"
  proof -
    from getTasks_eq [OF g] have "graphClient wa = graphClient w" "listId wa = listId w"
      using getTasks_frame(5,6) [of ?w0] g by simp_all
    moreover have "graphClient wb = graphClient wa" "listId wb = listId wa"
      using createTodayNote_frame(4,5) [of E wa] c by simp_all
    moreover have "graphClient wc = graphClient wb" "listId wc = listId wb"
      using parse_frame(5,6) [of p wb] pr by simp_all
    moreover from addNewTasks_init [OF run]
    have "graphClient w1 = graphClient wc" "listId w1 = listId wc" by simp_all
    ultimately show ?thesis using init by (simp add: initialized_def)
  qed
  from second_run [OF v1 [unfolded p] cover] i1 show ?thesis by blast
qed

text \<open>
  Two remote tasks and an empty vault: the first call creates the note and adds both tasks,
  the second call adds nothing.
\<close>

theorem second_sync_creates_nothing_witness:
  "\<exists>w1 w2. syncMsftToObsidian exampleEnv
              (exampleWorld Map.empty [mkTodo ''1'' ''Buy milk'', mkTodo ''2'' ''Write report''] []) =
              Some ((2, []), w1)
          \<and> syncMsftToObsidian exampleEnv w1 = Some ((0, []), w2)"
proof -
  let ?w = "exampleWorld Map.empty [mkTodo ''1'' ''Buy milk'', mkTodo ''2'' ''Write report''] []"
  have "map_option fst (syncMsftToObsidian exampleEnv ?w) = Some (2, [])" by code_simp
  then obtain w1 where f: "syncMsftToObsidian exampleEnv ?w = Some ((2, []), w1)" by auto
  have "map_option (\<lambda>x. faults (snd x)) (syncMsftToObsidian exampleEnv ?w) = Some []"
    by code_simp
  with f have nf: "faults w1 = []" by simp
  have h: "\<forall>m \<in> set (tasks ?w). (\<forall>c \<in> set (task_title m). \<not> isLineTerminator c) \<and>
                               completionSearch (task_title m) = None"
    by code_simp
  from second_sync_creates_nothing [OF f h] nf
  obtain r2 w2 where "syncMsftToObsidian exampleEnv w1 = Some (r2, w2)" "fst r2 = 0" "snd r2 = []"
    by blast
  then have "syncMsftToObsidian exampleEnv w1 = Some ((0, []), w2)" by (cases r2) simp
  with f show ?thesis by blast
qed

text \<open>
  A remote title that ends in completion metadata: the line added for it parses back to the
  title without the metadata, which is not the remote title, so the second call adds the task
  once more. Both calls return a count of one and no error, and the note holds the line twice.
\<close>

theorem second_sync_creates_again_counterexample:
  "map_option fst
     (syncMsftToObsidian exampleEnv
        (exampleWorld Map.empty [mkTodo ''1'' ''Pay rent [completion:: 2024-01-01]''] [])) =
     Some (1, [])
   \<and> map_option fst
       (Option.bind
          (syncMsftToObsidian exampleEnv
             (exampleWorld Map.empty [mkTodo ''1'' ''Pay rent [completion:: 2024-01-01]''] []))
          (\<lambda>x. syncMsftToObsidian exampleEnv (snd x))) =
       Some (1, [])
   \<and> map title (parseLines 0 [''- [ ] Pay rent [completion:: 2024-01-01]'']) = [''Pay rent'']
   \<and> map_option (\<lambda>x. vault (snd x) ''Daily Notes/2024-01-01.md'')
       (Option.bind
          (syncMsftToObsidian exampleEnv
             (exampleWorld Map.empty [mkTodo ''1'' ''Pay rent [completion:: 2024-01-01]''] []))
          (\<lambda>x. syncMsftToObsidian exampleEnv (snd x))) =
       Some (Some (TFile (join [''# 2024-01-01'', [], ''## ToDo'',
                                ''- [ ] Pay rent [completion:: 2024-01-01]'',
                                ''- [ ] Pay rent [completion:: 2024-01-01]'', [], []])
                     86400000))"
  by code_simp

section \<open>A section header with white space at an end\<close>

text \<open>
  \<open>addTaskToTodoSection\<close> looks for a line whose trimmed text is the header. A header that
  is not its own trimmed text is never found, also not after
  \<open>findOrCreateTodoSection\<close> has appended it: every round appends the section again and
  calls the method once more.
\<close>

lemma findHeader_untrimmed:
  assumes "trim h \<noteq> h"
  shows "findHeader h ls = None"
proof -
  have "trim l \<noteq> h" for l
  proof
    assume "trim l = h"
    then have "trim h = trim (trim l)" by simp
    also have "\<dots> = trim l" by (rule trim_trim)
    finally show False using assms \<open>trim l = h\<close> by simp
  qed
  then show ?thesis by (simp add: findHeader_None_iff)
qed

lemma addTaskAttempt_retries:
  assumes "trim (todoSectionHeader E) \<noteq> todoSectionHeader E"
    and "vault w p = Some (TFile c t)" and "faults w = []"
  shows "\<exists>w1 c1 t1. addTaskAttempt E p ttl w = Inr w1 \<and>
           vault w1 p = Some (TFile c1 t1) \<and> faults w1 = []"
  using assms(2,3)
  by (simp add: addTaskAttempt_def checkedFile_def vault_read_def fault_def Let_def
        findOrCreateTodoSection_def called_def vault_modify_def rethrow_def
        findHeader_untrimmed [OF assms(1)])

lemma addTask_diverges:
  assumes "trim (todoSectionHeader E) \<noteq> todoSectionHeader E"
    and "vault w p = Some (TFile c t)" and "faults w = []"
  shows "addTaskToTodoSection E p ttl w = None"
proof (rule ccontr)
  assume "addTaskToTodoSection E p ttl w \<noteq> None"
  then obtain y where run: "addTaskToTodoSection E p ttl w = Some y" by auto
  have "\<not> (\<exists>c t. vault w p = Some (TFile c t) \<and> faults w = [])"
    using run
  proof (rule addTask_raw)
    fix w r
    assume a: "addTaskAttempt E p ttl (called (AddTaskToTodoSection p ttl) w) = Inl r"
    show "\<not> (\<exists>c t. vault w p = Some (TFile c t) \<and> faults w = [])"
    proof
      assume "\<exists>c t. vault w p = Some (TFile c t) \<and> faults w = []"
      then obtain c t where "vault (called (AddTaskToTodoSection p ttl) w) p = Some (TFile c t)"
        "faults (called (AddTaskToTodoSection p ttl) w) = []"
        by auto
      from addTaskAttempt_retries [OF assms(1) this, of ttl] a show False by simp
    qed
  next
    fix w w1 :: world and y :: "(js_error + unit) \<times> world"
    assume a: "addTaskAttempt E p ttl (called (AddTaskToTodoSection p ttl) w) = Inr w1"
      and ih: "\<not> (\<exists>c t. vault w1 p = Some (TFile c t) \<and> faults w1 = [])"
    show "\<not> (\<exists>c t. vault w p = Some (TFile c t) \<and> faults w = [])"
    proof
      assume "\<exists>c t. vault w p = Some (TFile c t) \<and> faults w = []"
      then obtain c t where "vault (called (AddTaskToTodoSection p ttl) w) p = Some (TFile c t)"
        "faults (called (AddTaskToTodoSection p ttl) w) = []"
        by auto
      from addTaskAttempt_retries [OF assms(1) this, of ttl] a ih show False by auto
    qed
  qed
  with assms(2,3) show False by blast
qed

text \<open>
  Claim C4. What the claim says of a failure at the level of a phase holds (see the section
  on the failures of a whole phase), and the second and third phase always return. The
  full sync does not always return: with the header \<open>'' ## ToDo''\<close>, which the settings are
  loaded with unchecked, a note that exists and one remote task that is new to it, the
  first phase reaches \<open>addTaskToTodoSection\<close>, which calls itself without end, and
  \<open>performFullSync\<close> never returns a result (the value \<open>None\<close> of the model).
\<close>

theorem performFullSync_never_returns:
  "performFullSync (exampleEnv\<lparr>todoSectionHeader := '' ## ToDo''\<rparr>)
     (exampleWorld (noteOnly ''abc'') [mkTodo ''1'' ''Task 1''] []) = None"
proof -
  let ?E = "exampleEnv\<lparr>todoSectionHeader := '' ## ToDo''\<rparr>"
  let ?w = "exampleWorld (noteOnly ''abc'') [mkTodo ''1'' ''Task 1''] []"
  let ?p = "''Daily Notes/2024-01-01.md''"
  let ?we = "called (Enter MsftToObsidian) ?w"
  let ?wa = "called GetTasks ?we"
  let ?wb = "called CreateTodayNote ?wa"
  let ?wc = "called (ParseDailyNoteTodos ?p) ?wb"
  have path: "getTodayNote ?E = ?p" by code_simp
  have v: "vault ?w ?p = Some (TFile ''abc'' 0)" by (simp add: exampleWorld_def noteOnly_def)
  have f: "faults ?w = []" and i: "initialized ?w" and t: "tasks ?w = [mkTodo ''1'' ''Task 1'']"
    by (simp_all add: exampleWorld_def initialized_def)
  from getTasks_ok [of ?we] f i t
  have g: "getTasks ?we = (Inr [mkTodo ''1'' ''Task 1''], ?wa)" by simp
  from createTodayNote_exists [of ?wa ?E "''abc''" 0] v path
  have c: "createTodayNote ?E ?wa = (Inr ?p, ?wb)" by simp
  from parse_ok [of ?wb ?p "''abc''" 0] v f
  have pr: "parseDailyNoteTodos ?p ?wb = (Inr (parseLines 0 (split ''abc'')), ?wc)" by simp
  have new: "filterNewTasks [mkTodo ''1'' ''Task 1''] (parseLines 0 (split ''abc'')) =
      [mkTodo ''1'' ''Task 1'']"
    by code_simp
  have h: "trim (todoSectionHeader ?E) \<noteq> todoSectionHeader ?E" by code_simp
  have "vault ?wc ?p = Some (TFile ''abc'' 0)" "faults ?wc = []" using v f by simp_all
  from addTask_diverges [OF h this]
  have "addTaskToTodoSection ?E ?p (task_title (mkTodo ''1'' ''Task 1'')) ?wc = None" .
  then have al: "addNewTasks ?E ?p [mkTodo ''1'' ''Task 1''] (0, []) ?wc = None" by simp
  have "syncMsftToObsidian ?E ?w =
      addNewTasks ?E ?p (filterNewTasks [mkTodo ''1'' ''Task 1''] (parseLines 0 (split ''abc'')))
        (0, []) ?wc"
    by (rule syncMsft_loop [OF g c pr])
  then have "syncMsftToObsidian ?E ?w = None" by (simp only: new al)
  then show ?thesis by (simp add: performFullSync_def)
qed

end
